theory Spec2Isabelle
  imports Main "HOL-Library.AList" "HOL-Library.Sublist"
begin

section \<open>The lecture transcriber: data, world and external services\<close>

text \<open>
  The program (\<^verbatim>\<open>main.py\<close>) lists the videos of each configured subject on a remote
  drive, downloads the ones not yet recorded in a document store, transcribes them and
  writes one transcript file per video.  All of it is effectful, so the model passes
  an explicit world (the local disk and the store) through every function and returns,
  next to the result, the list of effects the call issued, in order.

  Python strings are modelled as \<^typ>\<open>string\<close>, each \<^typ>\<open>char\<close> standing for one code
  point below 256.  A Python exception (an instance of \<^verbatim>\<open>Exception\<close>, what the
  handlers of the program catch) is a value carrying its \<^verbatim>\<open>str(e)\<close>; a function
  that can raise returns a sum whose \<open>Inl\<close> is the exception.  The cooperative tasks
  and the worker threads are modelled on the schedule that runs them one after the
  other in creation order.
\<close>

datatype exn = Exn (message: string)

record drive_file =
  f_id :: string
  f_name :: string

record world =
  disk :: "string \<rightharpoonup> string"
  store :: "(string \<times> string) list"

datatype event =
    EvFetch string string
  | EvSleep nat
  | EvFfmpeg string
  | EvPrimary string
  | EvFallback string
  | EvWrite string string
  | EvInsert string string
  | EvRemove string

datatype fetch_result =
    Fetched string
  | FetchFailed "string option" exn

text \<open>
  The external services.  \<open>subjects\<close> is \<^verbatim>\<open>config['subjects']\<close> in iteration order, each
  subject with its \<^verbatim>\<open>recording_folder_id\<close> when the key is present.  \<open>drive_list\<close> is the
  remote listing of a folder.  \<open>fetch\<close> is one download attempt (file id, number of
  failed attempts so far): it ends with the bytes written to the temp file, or raises
  leaving the file with the bytes written so far (\<open>None\<close> when \<^verbatim>\<open>open\<close> itself failed).
  \<open>ffmpeg\<close> is the audio extraction of a video path: what it left at the output path
  (\<open>None\<close>: nothing written) and the exception of \<^verbatim>\<open>subprocess.run\<close>, if any.
  \<open>primary\<close> and \<open>fallback\<close> are the two speech models, returning the texts of the
  segments or raising.  \<open>cpu_count\<close> is \<^verbatim>\<open>os.cpu_count()\<close>.  \<open>find_fault\<close>,
  \<open>write_fault\<close> and \<open>insert_fault\<close> say when a store query, an artifact write or a
  store insert raises (a failing write leaves the given partial content, \<open>None\<close> when the
  file was not opened).
\<close>

record env =
  subjects :: "(string \<times> string option) list"
  drive_list :: "string \<Rightarrow> exn + drive_file list"
  fetch :: "string \<Rightarrow> nat \<Rightarrow> fetch_result"
  ffmpeg :: "string \<Rightarrow> string option \<times> exn option"
  primary :: "string \<Rightarrow> exn + string list"
  fallback :: "string \<Rightarrow> exn + string list"
  cpu_count :: "int option"
  find_fault :: "string \<Rightarrow> string \<Rightarrow> exn option"
  write_fault :: "string \<Rightarrow> (string option \<times> exn) option"
  insert_fault :: "string \<Rightarrow> string \<Rightarrow> exn option"

subsection \<open>Strings and paths\<close>

text \<open>\<^verbatim>\<open>str.isspace\<close> on the code points below 256, and \<^verbatim>\<open>str.strip()\<close>.\<close>

definition isspace :: "char \<Rightarrow> bool" where
  "isspace c \<longleftrightarrow> (of_char c :: nat) \<in> {9, 10, 11, 12, 13, 28, 29, 30, 31, 32, 133, 160}"

definition lstrip :: "string \<Rightarrow> string" where
  "lstrip s = dropWhile isspace s"

definition rstrip :: "string \<Rightarrow> string" where
  "rstrip s = rev (dropWhile isspace (rev s))"

definition strip :: "string \<Rightarrow> string" where
  "strip s = rstrip (lstrip s)"

definition newline :: string where
  "newline = [CHR 0x0A]"

text \<open>\<^verbatim>\<open>os.path.basename\<close> and the root part of \<^verbatim>\<open>os.path.splitext\<close> (POSIX), the latter
  on a name without separator: the extension starts at the last dot, leading dots of
  the name apart.\<close>

definition basename :: "string \<Rightarrow> string" where
  "basename p = rev (takeWhile (\<lambda>c. c \<noteq> CHR ''/'') (rev p))"

definition splitext_root :: "string \<Rightarrow> string" where
  "splitext_root p =
     (let lead = takeWhile (\<lambda>c. c = CHR ''.'') p;
          rest = dropWhile (\<lambda>c. c = CHR ''.'') p
      in if CHR ''.'' \<in> set rest
         then lead @ rev (tl (dropWhile (\<lambda>c. c \<noteq> CHR ''.'') (rev rest)))
         else p)"

subsection \<open>The local disk\<close>

definition path_exists :: "world \<Rightarrow> string \<Rightarrow> bool" where
  "path_exists w p \<longleftrightarrow> disk w p \<noteq> None"

definition getsize :: "world \<Rightarrow> string \<Rightarrow> nat" where
  "getsize w p = (case disk w p of None \<Rightarrow> 0 | Some bytes \<Rightarrow> length bytes)"

definition put_file :: "string \<Rightarrow> string option \<Rightarrow> world \<Rightarrow> world" where
  "put_file p content w =
     (case content of None \<Rightarrow> w | Some bytes \<Rightarrow> w\<lparr>disk := (disk w)(p \<mapsto> bytes)\<rparr>)"

text \<open>\<^verbatim>\<open>os.remove\<close>.  Every call of the source is made on a path that the same task has
  just seen to exist, so on the modelled schedule it does not raise.\<close>

definition os_remove :: "string \<Rightarrow> world \<Rightarrow> world" where
  "os_remove p w = w\<lparr>disk := (disk w)(p := None)\<rparr>"

section \<open>The transcriber\<close>

text \<open>The two loops that format the segments: the primary model's with one line break
  after each stripped segment, the fallback model's with two.\<close>

fun format_segments :: "string \<Rightarrow> string list \<Rightarrow> string" where
  "format_segments sep [] = []"
| "format_segments sep (segment # segments) =
     (strip segment @ sep) @ format_segments sep segments"

definition shape_error :: "exn \<Rightarrow> bool" where
  "shape_error e \<longleftrightarrow>
     sublist ''reshape tensor'' (message e) \<or> sublist ''Linear'' (message e)"

definition audio_path_of :: "string \<Rightarrow> string" where
  "audio_path_of video_path =
     ''temp_audio_'' @ splitext_root (basename video_path) @ ''.wav''"

definition transcribe_with_ffmpeg_preprocessing ::
  "env \<Rightarrow> string \<Rightarrow> world \<Rightarrow> string option \<times> world \<times> event list" where
  "transcribe_with_ffmpeg_preprocessing env video_path w =
     (let audio_path = audio_path_of video_path;
          w1 = put_file audio_path (fst (ffmpeg env video_path)) w
      in case snd (ffmpeg env video_path) of
           Some e \<Rightarrow>
             if path_exists w1 audio_path
             then (None, os_remove audio_path w1, [EvFfmpeg video_path, EvRemove audio_path])
             else (None, w1, [EvFfmpeg video_path])
         | None \<Rightarrow>
             if path_exists w1 audio_path \<and> getsize w1 audio_path > 0
             then (case primary env audio_path of
                     Inr segments \<Rightarrow>
                       (Some (format_segments newline segments), os_remove audio_path w1,
                        [EvFfmpeg video_path, EvPrimary audio_path, EvRemove audio_path])
                   | Inl e \<Rightarrow>
                       if shape_error e
                       then (case fallback env audio_path of
                               Inr segments \<Rightarrow>
                                 (Some (format_segments (newline @ newline) segments),
                                  os_remove audio_path w1,
                                  [EvFfmpeg video_path, EvPrimary audio_path,
                                   EvFallback audio_path, EvRemove audio_path])
                             | Inl e2 \<Rightarrow>
                                 (None, os_remove audio_path w1,
                                  [EvFfmpeg video_path, EvPrimary audio_path,
                                   EvFallback audio_path, EvRemove audio_path]))
                       else (None, os_remove audio_path w1,
                             [EvFfmpeg video_path, EvPrimary audio_path, EvRemove audio_path]))
             else (None, w1, [EvFfmpeg video_path]))"

section \<open>The media fetcher\<close>

definition max_retries :: nat where
  "max_retries = 3"

definition temp_video_of :: "string \<Rightarrow> string" where
  "temp_video_of file_name = ''temp_'' @ file_name"

text \<open>
  The retry loop of \<^verbatim>\<open>download_video\<close>, from the current \<^verbatim>\<open>retry_count\<close>.  A failed
  attempt increments the counter; below \<open>max_retries\<close> the task sleeps
  \<^verbatim>\<open>2 ** retry_count\<close> seconds and loops, otherwise the exception is raised again.
  Leaving the \<^verbatim>\<open>while\<close> without a \<^verbatim>\<open>return\<close> gives Python's \<^verbatim>\<open>None\<close>.
\<close>

function download_loop ::
  "env \<Rightarrow> string \<Rightarrow> string \<Rightarrow> nat \<Rightarrow> world \<Rightarrow> (exn + string option) \<times> world \<times> event list" where
  "download_loop env file_id temp_video retry_count w =
     (if retry_count < max_retries
      then (case fetch env file_id retry_count of
              Fetched bytes \<Rightarrow>
                (Inr (Some temp_video), put_file temp_video (Some bytes) w,
                 [EvFetch file_id temp_video])
            | FetchFailed partial e \<Rightarrow>
                if retry_count + 1 < max_retries
                then (case download_loop env file_id temp_video (retry_count + 1)
                             (put_file temp_video partial w) of
                        (r, w2, evs) \<Rightarrow>
                          (r, w2, EvFetch file_id temp_video
                                    # EvSleep (2 ^ (retry_count + 1)) # evs))
                else (Inl e, put_file temp_video partial w, [EvFetch file_id temp_video]))
      else (Inr None, w, []))"
  by pat_completeness auto
termination
  by (relation "measure (\<lambda>(env, file_id, temp_video, retry_count, w). max_retries - retry_count)")
    auto

declare download_loop.simps [simp del]

definition download_video ::
  "env \<Rightarrow> string \<Rightarrow> string \<Rightarrow> world \<Rightarrow> (exn + string option) \<times> world \<times> event list" where
  "download_video env file_id file_name w =
     download_loop env file_id (temp_video_of file_name) 0 w"

section \<open>The transcription pool\<close>

definition transcribe_with_progress ::
  "env \<Rightarrow> string \<Rightarrow> world \<Rightarrow> string option \<times> world \<times> event list" where
  "transcribe_with_progress env video_path w =
     (if \<not> path_exists w video_path \<or> getsize w video_path = 0
      then (None, w, [])
      else (case transcribe_with_ffmpeg_preprocessing env video_path w of
              (text, w1, evs) \<Rightarrow>
                (case text of
                   Some t \<Rightarrow> if t \<noteq> [] then (Some t, w1, evs) else (None, w1, evs)
                 | None \<Rightarrow> (None, w1, evs))))"

text \<open>The workers, one path after the other; \<open>results\<close> is the dictionary filled as
  the futures complete, a path entering it only with a text that is not \<^verbatim>\<open>None\<close>.\<close>

fun transcribe_each ::
  "env \<Rightarrow> string list \<Rightarrow> (string \<times> string) list \<Rightarrow> world
     \<Rightarrow> (string \<times> string) list \<times> world \<times> event list" where
  "transcribe_each env [] results w = (results, w, [])"
| "transcribe_each env (path # paths) results w =
     (case transcribe_with_progress env path w of
        (text, w1, evs1) \<Rightarrow>
          (case transcribe_each env paths
                  (case text of Some t \<Rightarrow> AList.update path t results | None \<Rightarrow> results) w1 of
             (r, w2, evs2) \<Rightarrow> (r, w2, evs1 @ evs2)))"

text \<open>
  \<^verbatim>\<open>max_workers = min(os.cpu_count() - 1 or 1, 3)\<close>: the subtraction raises a
  \<^verbatim>\<open>TypeError\<close> when the count is \<^verbatim>\<open>None\<close>, and the executor refuses a worker count
  that is not positive.
\<close>

definition transcribe_multiple_videos ::
  "env \<Rightarrow> string list \<Rightarrow> world \<Rightarrow> (exn + (string \<times> string) list) \<times> world \<times> event list" where
  "transcribe_multiple_videos env video_paths w =
     (case cpu_count env of
        None \<Rightarrow> (Inl (Exn ''unsupported operand type(s) for -: NoneType and int''), w, [])
      | Some n \<Rightarrow>
          (let max_workers = min (if n - 1 \<noteq> 0 then n - 1 else 1) 3
           in if max_workers \<le> 0
              then (Inl (Exn ''max_workers must be greater than 0''), w, [])
              else (case transcribe_each env video_paths [] w of
                      (r, w1, evs) \<Rightarrow> (Inr r, w1, evs))))"

section \<open>The processed set and the persist step\<close>

definition find_one :: "env \<Rightarrow> string \<Rightarrow> string \<Rightarrow> world \<Rightarrow> exn + bool" where
  "find_one env subject video_name w =
     (case find_fault env subject video_name of
        Some e \<Rightarrow> Inl e
      | None \<Rightarrow> Inr ((subject, video_name) \<in> set (store w)))"

definition insert_one :: "env \<Rightarrow> string \<Rightarrow> string \<Rightarrow> world \<Rightarrow> exn option \<times> world" where
  "insert_one env subject video_name w =
     (case insert_fault env subject video_name of
        Some e \<Rightarrow> (Some e, w)
      | None \<Rightarrow> (None, w\<lparr>store := store w @ [(subject, video_name)]\<rparr>))"

definition write_artifact :: "env \<Rightarrow> string \<Rightarrow> string \<Rightarrow> world \<Rightarrow> exn option \<times> world" where
  "write_artifact env txt_name transcription w =
     (case write_fault env txt_name of
        Some (partial, e) \<Rightarrow> (Some e, put_file txt_name partial w)
      | None \<Rightarrow> (None, put_file txt_name (Some transcription) w))"

definition txt_name_of :: "string \<Rightarrow> string" where
  "txt_name_of video_name = video_name @ ''_transcript.txt''"

definition process_transcribed_video ::
  "env \<Rightarrow> string \<Rightarrow> drive_file \<Rightarrow> string \<Rightarrow> string \<Rightarrow> world \<Rightarrow> world \<times> event list" where
  "process_transcribed_video env subject file temp_video transcription w =
     (let video_name = f_name file;
          txt_name = txt_name_of video_name
      in case write_artifact env txt_name transcription w of
           (Some e, w1) \<Rightarrow> (w1, [EvWrite txt_name transcription])
         | (None, w1) \<Rightarrow>
             (case insert_one env subject video_name w1 of
                (r, w2) \<Rightarrow> (w2, [EvWrite txt_name transcription, EvInsert subject video_name])))"

section \<open>The subject pipeline and the coordinator\<close>

datatype finished = NoVideos | NoUnprocessed | NoDownloads | NoTranscriptions | Completed

datatype outcome = Done finished | Aborted exn

fun filter_unprocessed :: "env \<Rightarrow> string \<Rightarrow> drive_file list \<Rightarrow> world \<Rightarrow> exn + drive_file list" where
  "filter_unprocessed env subject [] w = Inr []"
| "filter_unprocessed env subject (file # files) w =
     (case find_one env subject (f_name file) w of
        Inl e \<Rightarrow> Inl e
      | Inr found \<Rightarrow>
          (case filter_unprocessed env subject files w of
             Inl e \<Rightarrow> Inl e
           | Inr rest \<Rightarrow> Inr (if found then rest else file # rest)))"

fun download_all ::
  "env \<Rightarrow> drive_file list \<Rightarrow> world
     \<Rightarrow> (drive_file \<times> (exn + string option)) list \<times> world \<times> event list" where
  "download_all env [] w = ([], w, [])"
| "download_all env (file # files) w =
     (case download_video env (f_id file) (f_name file) w of
        (r, w1, evs1) \<Rightarrow>
          (case download_all env files w1 of
             (rs, w2, evs2) \<Rightarrow> ((file, r) # rs, w2, evs1 @ evs2)))"

text \<open>
  The loop that awaits the download tasks and fills \<^verbatim>\<open>downloaded_videos\<close>, a dictionary
  from the video name to the file and its temp path.  A task that raised, and the
  \<^verbatim>\<open>TypeError\<close> of \<^verbatim>\<open>os.path.exists(None)\<close>, are caught per file.
\<close>

fun verify_downloads ::
  "world \<Rightarrow> (drive_file \<times> (exn + string option)) list
     \<Rightarrow> (string \<times> drive_file \<times> string) list \<Rightarrow> (string \<times> drive_file \<times> string) list" where
  "verify_downloads w [] downloaded_videos = downloaded_videos"
| "verify_downloads w ((file, r) # rest) downloaded_videos =
     verify_downloads w rest
       (case r of
          Inr (Some temp_path) \<Rightarrow>
            if path_exists w temp_path \<and> getsize w temp_path > 0
            then AList.update (f_name file) (file, temp_path) downloaded_videos
            else downloaded_videos
        | Inr None \<Rightarrow> downloaded_videos
        | Inl e \<Rightarrow> downloaded_videos)"

fun persist_all ::
  "env \<Rightarrow> string \<Rightarrow> (string \<times> string) list \<Rightarrow> (string \<times> drive_file \<times> string) list
     \<Rightarrow> world \<Rightarrow> world \<times> event list" where
  "persist_all env subject transcriptions [] w = (w, [])"
| "persist_all env subject transcriptions ((video_name, file, temp_path) # rest) w =
     (case map_of transcriptions temp_path of
        Some transcription \<Rightarrow>
          (case process_transcribed_video env subject file temp_path transcription w of
             (w1, evs1) \<Rightarrow>
               (case persist_all env subject transcriptions rest w1 of
                  (w2, evs2) \<Rightarrow> (w2, evs1 @ evs2)))
      | None \<Rightarrow> persist_all env subject transcriptions rest w)"

fun cleanup :: "(string \<times> drive_file \<times> string) list \<Rightarrow> world \<Rightarrow> world \<times> event list" where
  "cleanup [] w = (w, [])"
| "cleanup ((video_name, file, temp_path) # rest) w =
     (if path_exists w temp_path
      then (case cleanup rest (os_remove temp_path w) of
              (w1, evs) \<Rightarrow> (w1, EvRemove temp_path # evs))
      else cleanup rest w)"

text \<open>The part of \<^verbatim>\<open>process_subject\<close> after the downloads were awaited: transcription
  of the batch, persisting, and the two cleanup loops.\<close>

definition after_download ::
  "env \<Rightarrow> string \<Rightarrow> (string \<times> drive_file \<times> string) list \<Rightarrow> world
     \<Rightarrow> (exn + finished) \<times> world \<times> event list" where
  "after_download env subject downloaded_videos w =
     (if downloaded_videos = [] then (Inr NoDownloads, w, [])
      else (case transcribe_multiple_videos env
                   (map (\<lambda>(video_name, file, temp_path). temp_path) downloaded_videos) w of
              (Inl e, w1, evs1) \<Rightarrow> (Inl e, w1, evs1)
            | (Inr transcriptions, w1, evs1) \<Rightarrow>
                if transcriptions = []
                then (case cleanup downloaded_videos w1 of
                        (w2, evs2) \<Rightarrow> (Inr NoTranscriptions, w2, evs1 @ evs2))
                else (case persist_all env subject transcriptions downloaded_videos w1 of
                        (w2, evs2) \<Rightarrow>
                          (case cleanup downloaded_videos w2 of
                             (w3, evs3) \<Rightarrow> (Inr Completed, w3, evs1 @ evs2 @ evs3)))))"

text \<open>The body of the \<^verbatim>\<open>try\<close> of \<^verbatim>\<open>process_subject\<close>; \<open>Inl\<close> is an exception that
  reaches the \<^verbatim>\<open>except\<close> clause.  The first two are the \<^verbatim>\<open>KeyError\<close>s of the
  configuration lookup.\<close>

definition process_subject_body ::
  "env \<Rightarrow> string \<Rightarrow> world \<Rightarrow> (exn + finished) \<times> world \<times> event list" where
  "process_subject_body env subject w =
     (case map_of (subjects env) subject of
        None \<Rightarrow> (Inl (Exn subject), w, [])
      | Some None \<Rightarrow> (Inl (Exn ''recording_folder_id''), w, [])
      | Some (Some recording_folder_id) \<Rightarrow>
          (case drive_list env recording_folder_id of
             Inl e \<Rightarrow> (Inl e, w, [])
           | Inr files \<Rightarrow>
               if files = [] then (Inr NoVideos, w, [])
               else (case filter_unprocessed env subject files w of
                       Inl e \<Rightarrow> (Inl e, w, [])
                     | Inr unprocessed_files \<Rightarrow>
                         if unprocessed_files = [] then (Inr NoUnprocessed, w, [])
                         else (case download_all env unprocessed_files w of
                                 (rs, w1, evs1) \<Rightarrow>
                                   (case after_download env subject
                                           (verify_downloads w1 rs []) w1 of
                                      (r, w2, evs2) \<Rightarrow> (r, w2, evs1 @ evs2))))))"

definition process_subject :: "env \<Rightarrow> string \<Rightarrow> world \<Rightarrow> outcome \<times> world \<times> event list" where
  "process_subject env subject w =
     (case process_subject_body env subject w of
        (Inl e, w1, evs) \<Rightarrow> (Aborted e, w1, evs)
      | (Inr d, w1, evs) \<Rightarrow> (Done d, w1, evs))"

fun run_subjects ::
  "env \<Rightarrow> string list \<Rightarrow> world \<Rightarrow> (string \<times> outcome) list \<times> world \<times> event list" where
  "run_subjects env [] w = ([], w, [])"
| "run_subjects env (subject # rest) w =
     (case process_subject env subject w of
        (out, w1, evs1) \<Rightarrow>
          (case run_subjects env rest w1 of
             (outs, w2, evs2) \<Rightarrow> ((subject, out) # outs, w2, evs1 @ evs2)))"

definition main :: "env \<Rightarrow> world \<Rightarrow> (string \<times> outcome) list \<times> world \<times> event list" where
  "main env w = run_subjects env (map fst (subjects env)) w"

section \<open>Reading a run\<close>

text \<open>The condition under which the transcriber reaches the models: \<^verbatim>\<open>subprocess.run\<close>
  returned without raising, and the extracted audio file exists with a positive size.\<close>

definition audio_extracted :: "env \<Rightarrow> string \<Rightarrow> world \<Rightarrow> bool" where
  "audio_extracted env video_path w \<longleftrightarrow>
     snd (ffmpeg env video_path) = None \<and>
     (let audio_path = audio_path_of video_path;
          w1 = put_file audio_path (fst (ffmpeg env video_path)) w
      in path_exists w1 audio_path \<and> getsize w1 audio_path > 0)"

text \<open>The stage an effect belongs to, and the parts of a trace the properties read.\<close>

datatype phase = Downloading | Transcribing | Persisting | Removing

fun phase_of :: "event \<Rightarrow> phase" where
  "phase_of (EvFetch file_id temp_video) = Downloading"
| "phase_of (EvSleep seconds) = Downloading"
| "phase_of (EvFfmpeg video_path) = Transcribing"
| "phase_of (EvPrimary audio_path) = Transcribing"
| "phase_of (EvFallback audio_path) = Transcribing"
| "phase_of (EvWrite txt_name text) = Persisting"
| "phase_of (EvInsert subject video_name) = Persisting"
| "phase_of (EvRemove path) = Removing"

fun is_fetch :: "event \<Rightarrow> bool" where
  "is_fetch (EvFetch file_id temp_video) = True"
| "is_fetch e = False"

fun is_fallback :: "event \<Rightarrow> bool" where
  "is_fallback (EvFallback audio_path) = True"
| "is_fallback e = False"

fun sleeps_of :: "event list \<Rightarrow> nat list" where
  "sleeps_of [] = []"
| "sleeps_of (EvSleep seconds # evs) = seconds # sleeps_of evs"
| "sleeps_of (e # evs) = sleeps_of evs"

definition result_of :: "'a \<times> world \<times> event list \<Rightarrow> 'a" where
  "result_of run = fst run"

definition world_of :: "'a \<times> world \<times> event list \<Rightarrow> world" where
  "world_of run = fst (snd run)"

definition events_of :: "'a \<times> world \<times> event list \<Rightarrow> event list" where
  "events_of run = snd (snd run)"

subsection \<open>Concrete services for the examples\<close>

definition w0 :: world where
  "w0 = \<lparr>disk = Map.empty, store = []\<rparr>"

definition env0 :: env where
  "env0 = \<lparr>subjects = [(''math'', Some ''folderM'')],
           drive_list = (\<lambda>folder. Inr [\<lparr>f_id = ''id1'', f_name = ''lec1.mp4''\<rparr>]),
           fetch = (\<lambda>file_id attempt. Fetched ''VIDEO''),
           ffmpeg = (\<lambda>video_path. (Some ''AUDIO'', None)),
           primary = (\<lambda>audio_path. Inr ['' hello '', ''world'']),
           fallback = (\<lambda>audio_path. Inr [''big '', '' model'']),
           cpu_count = Some 4,
           find_fault = (\<lambda>subject video_name. None),
           write_fault = (\<lambda>txt_name. None),
           insert_fault = (\<lambda>subject video_name. None)\<rparr>"

definition env_shape :: env where
  "env_shape = env0\<lparr>primary := (\<lambda>audio_path. Inl (Exn ''cannot reshape tensor of 0 elements''))\<rparr>"

definition env_shape_fallback_fails :: env where
  "env_shape_fallback_fails =
     env_shape\<lparr>fallback := (\<lambda>audio_path. Inl (Exn ''out of memory''))\<rparr>"

definition env_other_error :: env where
  "env_other_error = env0\<lparr>primary := (\<lambda>audio_path. Inl (Exn ''out of memory''))\<rparr>"

definition env_empty_audio :: env where
  "env_empty_audio = env0\<lparr>ffmpeg := (\<lambda>video_path. (Some [], None))\<rparr>"

definition env_no_speech :: env where
  "env_no_speech = env0\<lparr>primary := (\<lambda>audio_path. Inr [])\<rparr>"

definition env_fetch_fails :: "nat \<Rightarrow> env" where
  "env_fetch_fails k =
     env0\<lparr>fetch := (\<lambda>file_id attempt.
              if attempt < k then FetchFailed (Some []) (Exn ''timed out'') else Fetched ''VIDEO'')\<rparr>"

definition env_no_cpu_count :: env where
  "env_no_cpu_count = env0\<lparr>cpu_count := None\<rparr>"

definition env_two_subjects :: env where
  "env_two_subjects =
     env0\<lparr>subjects := [(''math'', Some ''folderM''), (''physics'', Some ''folderP'')],
          drive_list := (\<lambda>folder.
             if folder = ''folderM'' then Inr [\<lparr>f_id = ''idA'', f_name = ''lec1.mp4''\<rparr>]
             else Inr [\<lparr>f_id = ''idB'', f_name = ''lec1.mp4''\<rparr>])\<rparr>"

definition env_three_subjects :: env where
  "env_three_subjects =
     env0\<lparr>subjects := [(''algebra'', Some ''folderA''), (''biology'', Some ''folderB''),
                       (''chemistry'', Some ''folderC'')],
          drive_list := (\<lambda>folder.
             if folder = ''folderA'' then Inr [\<lparr>f_id = ''idA'', f_name = ''a1.mp4''\<rparr>]
             else if folder = ''folderB'' then Inl (Exn ''HttpError 403'')
             else Inr [\<lparr>f_id = ''idC'', f_name = ''c1.mp4''\<rparr>])\<rparr>"

definition w_done :: world where
  "w_done = \<lparr>disk = Map.empty, store = [(''math'', ''lec1.mp4'')]\<rparr>"


definition lec1 :: drive_file where
  "lec1 = \<lparr>f_id = ''id1'', f_name = ''lec1.mp4''\<rparr>"

definition w_downloaded :: world where
  "w_downloaded = \<lparr>disk = [''temp_lec1.mp4'' \<mapsto> ''VIDEO''], store = []\<rparr>"

section \<open>Properties of the transcriber\<close>

lemma format_segments_concat:
  "format_segments sep segments = concat (map (\<lambda>segment. strip segment @ sep) segments)"
  by (induction segments) simp_all

text \<open>What \<open>strip\<close> removes is white space on both sides, and nothing more can be removed.\<close>

lemma lstrip_rstrip_decomp:
  "dropWhile isspace s = strip s @ rev (takeWhile isspace (rev (dropWhile isspace s)))"
  unfolding strip_def lstrip_def rstrip_def
  by (metis rev_append rev_rev_ident takeWhile_dropWhile_id)

lemma strip_decomp:
  "\<exists>l r. s = l @ strip s @ r \<and> (\<forall>c\<in>set l. isspace c) \<and> (\<forall>c\<in>set r. isspace c)"
proof -
  let ?l = "takeWhile isspace s"
  let ?r = "rev (takeWhile isspace (rev (dropWhile isspace s)))"
  have "s = ?l @ strip s @ ?r"
    using lstrip_rstrip_decomp [of s] by (metis takeWhile_dropWhile_id)
  moreover have "\<forall>c\<in>set ?l. isspace c"
    by (auto dest: set_takeWhileD)
  moreover have "\<forall>c\<in>set ?r. isspace c"
    by (auto dest: set_takeWhileD)
  ultimately show ?thesis by blast
qed

lemma strip_ends:
  assumes "strip s \<noteq> []"
  shows "\<not> isspace (hd (strip s)) \<and> \<not> isspace (last (strip s))"
proof -
  let ?m = "dropWhile isspace s"
  have r: "dropWhile isspace (rev ?m) \<noteq> []"
    using assms by (simp add: strip_def lstrip_def rstrip_def)
  have m: "?m \<noteq> []"
  proof
    assume "?m = []"
    then have "dropWhile isspace (rev ?m) = []" by (simp only: rev.simps dropWhile.simps)
    with r show False by blast
  qed
  have "\<not> isspace (last (strip s))"
    using r hd_dropWhile [OF r] by (simp add: strip_def lstrip_def rstrip_def last_rev)
  moreover have "\<not> isspace (hd ?m)"
    using m hd_dropWhile by blast
  moreover have "hd (strip s) = hd ?m"
    using assms lstrip_rstrip_decomp [of s] by (metis hd_append2)
  ultimately show ?thesis by simp
qed

lemma transcribe_primary_ok:
  assumes "audio_extracted env video_path w"
    and "primary env (audio_path_of video_path) = Inr segments"
  shows "transcribe_with_ffmpeg_preprocessing env video_path w =
           (Some (format_segments newline segments),
            os_remove (audio_path_of video_path)
              (put_file (audio_path_of video_path) (fst (ffmpeg env video_path)) w),
            [EvFfmpeg video_path, EvPrimary (audio_path_of video_path),
             EvRemove (audio_path_of video_path)])"
  using assms
  by (simp add: transcribe_with_ffmpeg_preprocessing_def audio_extracted_def Let_def)

lemma transcribe_primary_fails:
  assumes "audio_extracted env video_path w"
    and "primary env (audio_path_of video_path) = Inl e"
  shows "transcribe_with_ffmpeg_preprocessing env video_path w =
           (if shape_error e
            then (case fallback env (audio_path_of video_path) of
                    Inr segments \<Rightarrow> Some (format_segments (newline @ newline) segments)
                  | Inl e2 \<Rightarrow> None,
                  os_remove (audio_path_of video_path)
                    (put_file (audio_path_of video_path) (fst (ffmpeg env video_path)) w),
                  [EvFfmpeg video_path, EvPrimary (audio_path_of video_path),
                   EvFallback (audio_path_of video_path), EvRemove (audio_path_of video_path)])
            else (None,
                  os_remove (audio_path_of video_path)
                    (put_file (audio_path_of video_path) (fst (ffmpeg env video_path)) w),
                  [EvFfmpeg video_path, EvPrimary (audio_path_of video_path),
                   EvRemove (audio_path_of video_path)]))"
  using assms
  by (simp add: transcribe_with_ffmpeg_preprocessing_def audio_extracted_def Let_def
      split: sum.splits)

text \<open>The exits of the transcriber on which the audio file is gone: the extraction
  raised, or it left a file that is not empty.\<close>

lemma transcribe_removes_audio:
  assumes "snd (ffmpeg env video_path) \<noteq> None \<or>
           0 < getsize (put_file (audio_path_of video_path) (fst (ffmpeg env video_path)) w)
                 (audio_path_of video_path)"
  shows "disk (world_of (transcribe_with_ffmpeg_preprocessing env video_path w))
           (audio_path_of video_path) = None"
  using assms
  by (auto simp: transcribe_with_ffmpeg_preprocessing_def Let_def world_of_def os_remove_def
      path_exists_def getsize_def split: option.splits sum.splits)

text \<open>
  C9.  When the audio was extracted and the primary model succeeds, the text returned is
  the stripped text of each segment followed by exactly one line break, in order.  When
  the primary model fails with a shape error and the fallback model succeeds, it is the
  stripped text of each segment followed by two line breaks, that is, a blank line after
  each segment.
\<close>

theorem transcript_formatting:
  "audio_extracted env video_path w \<Longrightarrow>
   (primary env (audio_path_of video_path) = Inr segments \<longrightarrow>
      result_of (transcribe_with_ffmpeg_preprocessing env video_path w) =
        Some (concat (map (\<lambda>segment. strip segment @ [CHR 0x0A]) segments))) \<and>
   (primary env (audio_path_of video_path) = Inl e \<and> shape_error e \<and>
    fallback env (audio_path_of video_path) = Inr segments \<longrightarrow>
      result_of (transcribe_with_ffmpeg_preprocessing env video_path w) =
        Some (concat (map (\<lambda>segment. strip segment @ [CHR 0x0A, CHR 0x0A]) segments)))"
  by (simp add: transcribe_primary_ok transcribe_primary_fails format_segments_concat
      newline_def result_of_def)

theorem transcript_formatting_witness:
  "(audio_extracted env0 ''temp_lec1.mp4'' w0 \<and>
    primary env0 (audio_path_of ''temp_lec1.mp4'') = Inr ['' hello '', ''world''] \<and>
    result_of (transcribe_with_ffmpeg_preprocessing env0 ''temp_lec1.mp4'' w0) =
      Some (''hello'' @ [CHR 0x0A] @ ''world'' @ [CHR 0x0A])) \<and>
   (audio_extracted env_shape ''temp_lec1.mp4'' w0 \<and>
    primary env_shape (audio_path_of ''temp_lec1.mp4'') =
      Inl (Exn ''cannot reshape tensor of 0 elements'') \<and>
    shape_error (Exn ''cannot reshape tensor of 0 elements'') \<and>
    fallback env_shape (audio_path_of ''temp_lec1.mp4'') = Inr [''big '', '' model''] \<and>
    result_of (transcribe_with_ffmpeg_preprocessing env_shape ''temp_lec1.mp4'' w0) =
      Some (''big'' @ [CHR 0x0A, CHR 0x0A] @ ''model'' @ [CHR 0x0A, CHR 0x0A]))"
proof -
  have h1: "audio_extracted env0 ''temp_lec1.mp4'' w0"
    by code_simp
  have p1: "primary env0 (audio_path_of ''temp_lec1.mp4'') = Inr ['' hello '', ''world'']"
    by (simp add: env0_def)
  have s1: "concat (map (\<lambda>segment. strip segment @ [CHR 0x0A]) ['' hello '', ''world'']) =
      ''hello'' @ [CHR 0x0A] @ ''world'' @ [CHR 0x0A]"
    by code_simp
  have h2: "audio_extracted env_shape ''temp_lec1.mp4'' w0"
    by code_simp
  have p2: "primary env_shape (audio_path_of ''temp_lec1.mp4'') =
      Inl (Exn ''cannot reshape tensor of 0 elements'')"
    by (simp add: env_shape_def env0_def)
  have e2: "shape_error (Exn ''cannot reshape tensor of 0 elements'')"
    by code_simp
  have f2: "fallback env_shape (audio_path_of ''temp_lec1.mp4'') = Inr [''big '', '' model'']"
    by (simp add: env_shape_def env0_def)
  have s2: "concat (map (\<lambda>segment. strip segment @ [CHR 0x0A, CHR 0x0A]) [''big '', '' model'']) =
      ''big'' @ [CHR 0x0A, CHR 0x0A] @ ''model'' @ [CHR 0x0A, CHR 0x0A]"
    by code_simp
  have a: "result_of (transcribe_with_ffmpeg_preprocessing env0 ''temp_lec1.mp4'' w0) =
      Some (''hello'' @ [CHR 0x0A] @ ''world'' @ [CHR 0x0A])"
    using transcript_formatting [OF h1, of "['' hello '', ''world'']"] p1 s1 by simp
  have b: "result_of (transcribe_with_ffmpeg_preprocessing env_shape ''temp_lec1.mp4'' w0) =
      Some (''big'' @ [CHR 0x0A, CHR 0x0A] @ ''model'' @ [CHR 0x0A, CHR 0x0A])"
    using transcript_formatting [OF h2, of "[''big '', '' model'']"
        "Exn ''cannot reshape tensor of 0 elements''"] p2 e2 f2 s2 by simp
  from h1 p1 a h2 p2 e2 f2 b show ?thesis by blast
qed

text \<open>
  C4.  When the audio was extracted and the primary model raises \<open>e\<close>: if the message of
  \<open>e\<close> contains \<^verbatim>\<open>reshape tensor\<close> or \<^verbatim>\<open>Linear\<close>, the fallback model is called exactly
  once, its segments are returned each stripped and followed by a blank line when it
  succeeds, and the result is \<^verbatim>\<open>None\<close> when it fails; for any other message there is
  no fallback call and the result is \<^verbatim>\<open>None\<close>.
\<close>

theorem fallback_trigger:
  "audio_extracted env video_path w \<Longrightarrow>
   primary env (audio_path_of video_path) = Inl e \<Longrightarrow>
   (shape_error e \<longrightarrow>
      length (filter is_fallback
        (events_of (transcribe_with_ffmpeg_preprocessing env video_path w))) = 1 \<and>
      (\<forall>segments. fallback env (audio_path_of video_path) = Inr segments \<longrightarrow>
         result_of (transcribe_with_ffmpeg_preprocessing env video_path w) =
           Some (concat (map (\<lambda>segment. strip segment @ [CHR 0x0A, CHR 0x0A]) segments))) \<and>
      (\<forall>e2. fallback env (audio_path_of video_path) = Inl e2 \<longrightarrow>
         result_of (transcribe_with_ffmpeg_preprocessing env video_path w) = None)) \<and>
   (\<not> shape_error e \<longrightarrow>
      filter is_fallback
        (events_of (transcribe_with_ffmpeg_preprocessing env video_path w)) = [] \<and>
      result_of (transcribe_with_ffmpeg_preprocessing env video_path w) = None)"
  by (simp add: transcribe_primary_fails format_segments_concat newline_def result_of_def
      events_of_def)


theorem fallback_trigger_witness:
  "(audio_extracted env_shape ''temp_lec1.mp4'' w0 \<and>
    primary env_shape (audio_path_of ''temp_lec1.mp4'') =
      Inl (Exn ''cannot reshape tensor of 0 elements'') \<and>
    shape_error (Exn ''cannot reshape tensor of 0 elements'') \<and>
    fallback env_shape (audio_path_of ''temp_lec1.mp4'') = Inr [''big '', '' model''] \<and>
    length (filter is_fallback
      (events_of (transcribe_with_ffmpeg_preprocessing env_shape ''temp_lec1.mp4'' w0))) = 1 \<and>
    result_of (transcribe_with_ffmpeg_preprocessing env_shape ''temp_lec1.mp4'' w0) =
      Some (''big'' @ [CHR 0x0A, CHR 0x0A] @ ''model'' @ [CHR 0x0A, CHR 0x0A])) \<and>
   (audio_extracted env_shape_fallback_fails ''temp_lec1.mp4'' w0 \<and>
    primary env_shape_fallback_fails (audio_path_of ''temp_lec1.mp4'') =
      Inl (Exn ''cannot reshape tensor of 0 elements'') \<and>
    fallback env_shape_fallback_fails (audio_path_of ''temp_lec1.mp4'') =
      Inl (Exn ''out of memory'') \<and>
    length (filter is_fallback
      (events_of (transcribe_with_ffmpeg_preprocessing env_shape_fallback_fails
         ''temp_lec1.mp4'' w0))) = 1 \<and>
    result_of (transcribe_with_ffmpeg_preprocessing env_shape_fallback_fails
      ''temp_lec1.mp4'' w0) = None) \<and>
   (audio_extracted env_other_error ''temp_lec1.mp4'' w0 \<and>
    primary env_other_error (audio_path_of ''temp_lec1.mp4'') = Inl (Exn ''out of memory'') \<and>
    \<not> shape_error (Exn ''out of memory'') \<and>
    filter is_fallback
      (events_of (transcribe_with_ffmpeg_preprocessing env_other_error ''temp_lec1.mp4'' w0)) = [] \<and>
    result_of (transcribe_with_ffmpeg_preprocessing env_other_error ''temp_lec1.mp4'' w0) = None)"
proof -
  have shape: "shape_error (Exn ''cannot reshape tensor of 0 elements'')"
    by code_simp
  have other: "\<not> shape_error (Exn ''out of memory'')"
    by code_simp
  have h1: "audio_extracted env_shape ''temp_lec1.mp4'' w0"
    by code_simp
  have p1: "primary env_shape (audio_path_of ''temp_lec1.mp4'') =
      Inl (Exn ''cannot reshape tensor of 0 elements'')"
    by (simp add: env_shape_def env0_def)
  have f1: "fallback env_shape (audio_path_of ''temp_lec1.mp4'') = Inr [''big '', '' model'']"
    by (simp add: env_shape_def env0_def)
  have s1: "concat (map (\<lambda>segment. strip segment @ [CHR 0x0A, CHR 0x0A]) [''big '', '' model'']) =
      ''big'' @ [CHR 0x0A, CHR 0x0A] @ ''model'' @ [CHR 0x0A, CHR 0x0A]"
    by code_simp
  have h2: "audio_extracted env_shape_fallback_fails ''temp_lec1.mp4'' w0"
    by code_simp
  have p2: "primary env_shape_fallback_fails (audio_path_of ''temp_lec1.mp4'') =
      Inl (Exn ''cannot reshape tensor of 0 elements'')"
    by (simp add: env_shape_fallback_fails_def env_shape_def env0_def)
  have f2: "fallback env_shape_fallback_fails (audio_path_of ''temp_lec1.mp4'') =
      Inl (Exn ''out of memory'')"
    by (simp add: env_shape_fallback_fails_def env_shape_def env0_def)
  have h3: "audio_extracted env_other_error ''temp_lec1.mp4'' w0"
    by code_simp
  have p3: "primary env_other_error (audio_path_of ''temp_lec1.mp4'') =
      Inl (Exn ''out of memory'')"
    by (simp add: env_other_error_def env0_def)
  note t1 = fallback_trigger [OF h1 p1]
  note t2 = fallback_trigger [OF h2 p2]
  note t3 = fallback_trigger [OF h3 p3]
  have a: "length (filter is_fallback
      (events_of (transcribe_with_ffmpeg_preprocessing env_shape ''temp_lec1.mp4'' w0))) = 1 \<and>
    result_of (transcribe_with_ffmpeg_preprocessing env_shape ''temp_lec1.mp4'' w0) =
      Some (''big'' @ [CHR 0x0A, CHR 0x0A] @ ''model'' @ [CHR 0x0A, CHR 0x0A])"
    using t1 shape f1 s1 by simp
  have b: "length (filter is_fallback
      (events_of (transcribe_with_ffmpeg_preprocessing env_shape_fallback_fails
         ''temp_lec1.mp4'' w0))) = 1 \<and>
    result_of (transcribe_with_ffmpeg_preprocessing env_shape_fallback_fails
      ''temp_lec1.mp4'' w0) = None"
    using t2 shape f2 by simp
  have c: "filter is_fallback
      (events_of (transcribe_with_ffmpeg_preprocessing env_other_error ''temp_lec1.mp4'' w0)) = [] \<and>
    result_of (transcribe_with_ffmpeg_preprocessing env_other_error ''temp_lec1.mp4'' w0) = None"
    using t3 other by simp
  from shape other h1 p1 f1 h2 p2 f2 h3 p3 a b c show ?thesis by blast
qed

text \<open>
  C7.  The transcriber is to remove the extracted audio file on every exit.  On the exit
  taken when \<^verbatim>\<open>ffmpeg\<close> returns without error and leaves an empty output file, the
  check of the size fails, the function returns \<^verbatim>\<open>None\<close> from the \<^verbatim>\<open>else\<close> branch,
  and the file, which was not on the disk before the call, is still there.
\<close>

theorem empty_audio_file_left_behind:
  "disk w0 (audio_path_of ''temp_lec1.mp4'') = None \<and>
   ffmpeg env_empty_audio ''temp_lec1.mp4'' = (Some [], None) \<and>
   result_of (transcribe_with_ffmpeg_preprocessing env_empty_audio ''temp_lec1.mp4'' w0) = None \<and>
   audio_path_of ''temp_lec1.mp4'' = ''temp_audio_temp_lec1.wav'' \<and>
   disk (world_of (transcribe_with_ffmpeg_preprocessing env_empty_audio ''temp_lec1.mp4'' w0))
     ''temp_audio_temp_lec1.wav'' = Some []"
  by code_simp

section \<open>Properties of the media fetcher\<close>

text \<open>The retry loop, unfolded from a counter of zero: three attempts at most, a sleep of
  two seconds after the first failure and of four after the second.\<close>

lemma download_loop_2:
  "download_loop env file_id t (Suc (Suc 0)) w =
     (case fetch env file_id (Suc (Suc 0)) of
        Fetched bytes \<Rightarrow> (Inr (Some t), put_file t (Some bytes) w, [EvFetch file_id t])
      | FetchFailed p e \<Rightarrow> (Inl e, put_file t p w, [EvFetch file_id t]))"
  by (subst download_loop.simps) (simp add: max_retries_def split: fetch_result.splits)

lemma download_loop_1:
  "download_loop env file_id t (Suc 0) w =
     (case fetch env file_id (Suc 0) of
        Fetched bytes \<Rightarrow> (Inr (Some t), put_file t (Some bytes) w, [EvFetch file_id t])
      | FetchFailed p e \<Rightarrow>
          (case download_loop env file_id t (Suc (Suc 0)) (put_file t p w) of
             (r, w2, evs) \<Rightarrow> (r, w2, EvFetch file_id t # EvSleep 4 # evs)))"
  by (subst download_loop.simps) (simp add: max_retries_def split: fetch_result.splits)

lemma download_loop_0:
  "download_loop env file_id t 0 w =
     (case fetch env file_id 0 of
        Fetched bytes \<Rightarrow> (Inr (Some t), put_file t (Some bytes) w, [EvFetch file_id t])
      | FetchFailed p e \<Rightarrow>
          (case download_loop env file_id t (Suc 0) (put_file t p w) of
             (r, w2, evs) \<Rightarrow> (r, w2, EvFetch file_id t # EvSleep 2 # evs)))"
  by (subst download_loop.simps) (simp add: max_retries_def split: fetch_result.splits)

lemma download_video_unfold:
  "download_video env file_id file_name w =
     (let t = temp_video_of file_name in
      case fetch env file_id 0 of
        Fetched bytes \<Rightarrow> (Inr (Some t), put_file t (Some bytes) w, [EvFetch file_id t])
      | FetchFailed p0 e0 \<Rightarrow>
          (case fetch env file_id 1 of
             Fetched bytes \<Rightarrow>
               (Inr (Some t), put_file t (Some bytes) (put_file t p0 w),
                [EvFetch file_id t, EvSleep 2, EvFetch file_id t])
           | FetchFailed p1 e1 \<Rightarrow>
               (case fetch env file_id 2 of
                  Fetched bytes \<Rightarrow>
                    (Inr (Some t), put_file t (Some bytes) (put_file t p1 (put_file t p0 w)),
                     [EvFetch file_id t, EvSleep 2, EvFetch file_id t, EvSleep 4,
                      EvFetch file_id t])
                | FetchFailed p2 e2 \<Rightarrow>
                    (Inl e2, put_file t p2 (put_file t p1 (put_file t p0 w)),
                     [EvFetch file_id t, EvSleep 2, EvFetch file_id t, EvSleep 4,
                      EvFetch file_id t]))))"
  unfolding download_video_def Let_def
  by (simp add: download_loop_0 download_loop_1 download_loop_2 numeral_2_eq_2
      split: fetch_result.splits prod.splits)

lemma download_video_attempts:
  "length (filter is_fetch (events_of (download_video env file_id file_name w))) \<le> 3"
  by (simp add: download_video_unfold events_of_def Let_def split: fetch_result.splits)

lemma download_video_sleeps:
  "sleeps_of (events_of (download_video env file_id file_name w)) \<in> {[], [2], [2, 4]}"
  by (simp add: download_video_unfold events_of_def Let_def split: fetch_result.splits)

lemma download_video_events_phase:
  "e \<in> set (events_of (download_video env file_id file_name w)) \<Longrightarrow> phase_of e = Downloading"
  by (auto simp: download_video_unfold events_of_def Let_def split: fetch_result.splits)


lemma download_video_result_path:
  "result_of (download_video env file_id file_name w) = Inr (Some p) \<Longrightarrow>
   p = temp_video_of file_name"
  by (simp add: download_video_unfold result_of_def Let_def split: fetch_result.splits)

lemma download_video_fetch_path:
  "EvFetch i p \<in> set (events_of (download_video env file_id file_name w)) \<Longrightarrow>
   p = temp_video_of file_name"
  by (simp add: download_video_unfold events_of_def Let_def split: fetch_result.splits)

text \<open>
  C5, as the specification states it.  When all three attempts fail, the task sleeps two seconds and
  then four; there is no sleep of eight seconds, and the exception of the third attempt
  reaches the caller.
\<close>

theorem no_eight_second_backoff:
  "result_of (download_video (env_fetch_fails 3) ''id1'' ''lec1.mp4'' w0) = Inl (Exn ''timed out'') \<and>
   length (filter is_fetch
     (events_of (download_video (env_fetch_fails 3) ''id1'' ''lec1.mp4'' w0))) = 3 \<and>
   sleeps_of (events_of (download_video (env_fetch_fails 3) ''id1'' ''lec1.mp4'' w0)) = [2, 4] \<and>
   sleeps_of (events_of (download_video (env_fetch_fails 3) ''id1'' ''lec1.mp4'' w0)) \<noteq> [2, 4, 8]"
  by code_simp

text \<open>
  C5, amended.  A download makes at most three attempts.  The first attempt that succeeds
  ends it with the temp path; after the first failed attempt the task sleeps two seconds,
  after the second four seconds, and after the third it sleeps no more and raises the
  exception of that attempt to the caller.
\<close>

theorem download_retry_contract:
  "(\<forall>bytes. fetch env file_id 0 = Fetched bytes \<longrightarrow>
      result_of (download_video env file_id file_name w) = Inr (Some (temp_video_of file_name)) \<and>
      events_of (download_video env file_id file_name w) =
        [EvFetch file_id (temp_video_of file_name)]) \<and>
   (\<forall>p0 e0 bytes. fetch env file_id 0 = FetchFailed p0 e0 \<and> fetch env file_id 1 = Fetched bytes \<longrightarrow>
      result_of (download_video env file_id file_name w) = Inr (Some (temp_video_of file_name)) \<and>
      events_of (download_video env file_id file_name w) =
        [EvFetch file_id (temp_video_of file_name), EvSleep 2,
         EvFetch file_id (temp_video_of file_name)]) \<and>
   (\<forall>p0 e0 p1 e1 bytes.
      fetch env file_id 0 = FetchFailed p0 e0 \<and> fetch env file_id 1 = FetchFailed p1 e1 \<and>
      fetch env file_id 2 = Fetched bytes \<longrightarrow>
      result_of (download_video env file_id file_name w) = Inr (Some (temp_video_of file_name)) \<and>
      events_of (download_video env file_id file_name w) =
        [EvFetch file_id (temp_video_of file_name), EvSleep 2,
         EvFetch file_id (temp_video_of file_name), EvSleep 4,
         EvFetch file_id (temp_video_of file_name)]) \<and>
   (\<forall>p0 e0 p1 e1 p2 e2.
      fetch env file_id 0 = FetchFailed p0 e0 \<and> fetch env file_id 1 = FetchFailed p1 e1 \<and>
      fetch env file_id 2 = FetchFailed p2 e2 \<longrightarrow>
      result_of (download_video env file_id file_name w) = Inl e2 \<and>
      events_of (download_video env file_id file_name w) =
        [EvFetch file_id (temp_video_of file_name), EvSleep 2,
         EvFetch file_id (temp_video_of file_name), EvSleep 4,
         EvFetch file_id (temp_video_of file_name)]) \<and>
   length (filter is_fetch (events_of (download_video env file_id file_name w))) \<le> 3 \<and>
   EvSleep 8 \<notin> set (events_of (download_video env file_id file_name w))"
proof (intro conjI allI impI)
  fix bytes
  assume "fetch env file_id 0 = Fetched bytes"
  then show "result_of (download_video env file_id file_name w) =
      Inr (Some (temp_video_of file_name))"
    and "events_of (download_video env file_id file_name w) =
      [EvFetch file_id (temp_video_of file_name)]"
    by (simp_all add: download_video_unfold events_of_def result_of_def Let_def)
next
  fix p0 e0 bytes
  assume "fetch env file_id 0 = FetchFailed p0 e0 \<and> fetch env file_id 1 = Fetched bytes"
  then show "result_of (download_video env file_id file_name w) =
      Inr (Some (temp_video_of file_name))"
    and "events_of (download_video env file_id file_name w) =
      [EvFetch file_id (temp_video_of file_name), EvSleep 2,
       EvFetch file_id (temp_video_of file_name)]"
    by (simp_all add: download_video_unfold events_of_def result_of_def Let_def)
next
  fix p0 e0 p1 e1 bytes
  assume "fetch env file_id 0 = FetchFailed p0 e0 \<and> fetch env file_id 1 = FetchFailed p1 e1 \<and>
      fetch env file_id 2 = Fetched bytes"
  then show "result_of (download_video env file_id file_name w) =
      Inr (Some (temp_video_of file_name))"
    and "events_of (download_video env file_id file_name w) =
      [EvFetch file_id (temp_video_of file_name), EvSleep 2,
       EvFetch file_id (temp_video_of file_name), EvSleep 4,
       EvFetch file_id (temp_video_of file_name)]"
    by (simp_all add: download_video_unfold events_of_def result_of_def Let_def)
next
  fix p0 e0 p1 e1 p2 e2
  assume "fetch env file_id 0 = FetchFailed p0 e0 \<and> fetch env file_id 1 = FetchFailed p1 e1 \<and>
      fetch env file_id 2 = FetchFailed p2 e2"
  then show "result_of (download_video env file_id file_name w) = Inl e2"
    and "events_of (download_video env file_id file_name w) =
      [EvFetch file_id (temp_video_of file_name), EvSleep 2,
       EvFetch file_id (temp_video_of file_name), EvSleep 4,
       EvFetch file_id (temp_video_of file_name)]"
    by (simp_all add: download_video_unfold events_of_def result_of_def Let_def)
next
  show "length (filter is_fetch (events_of (download_video env file_id file_name w))) \<le> 3"
    by (rule download_video_attempts)
next
  have "EvSleep 8 \<in> set (events_of (download_video env file_id file_name w)) \<Longrightarrow> False"
    by (simp add: download_video_unfold events_of_def Let_def split: fetch_result.splits)
  then show "EvSleep 8 \<notin> set (events_of (download_video env file_id file_name w))"
    by blast
qed

theorem download_retry_contract_witness:
  "(fetch env0 ''id1'' 0 = Fetched ''VIDEO'' \<and>
    events_of (download_video env0 ''id1'' ''lec1.mp4'' w0) = [EvFetch ''id1'' ''temp_lec1.mp4'']) \<and>
   (fetch (env_fetch_fails 1) ''id1'' 0 = FetchFailed (Some []) (Exn ''timed out'') \<and>
    fetch (env_fetch_fails 1) ''id1'' 1 = Fetched ''VIDEO'' \<and>
    events_of (download_video (env_fetch_fails 1) ''id1'' ''lec1.mp4'' w0) =
      [EvFetch ''id1'' ''temp_lec1.mp4'', EvSleep 2, EvFetch ''id1'' ''temp_lec1.mp4'']) \<and>
   (fetch (env_fetch_fails 2) ''id1'' 0 = FetchFailed (Some []) (Exn ''timed out'') \<and>
    fetch (env_fetch_fails 2) ''id1'' 1 = FetchFailed (Some []) (Exn ''timed out'') \<and>
    fetch (env_fetch_fails 2) ''id1'' 2 = Fetched ''VIDEO'' \<and>
    events_of (download_video (env_fetch_fails 2) ''id1'' ''lec1.mp4'' w0) =
      [EvFetch ''id1'' ''temp_lec1.mp4'', EvSleep 2, EvFetch ''id1'' ''temp_lec1.mp4'',
       EvSleep 4, EvFetch ''id1'' ''temp_lec1.mp4'']) \<and>
   (fetch (env_fetch_fails 3) ''id1'' 0 = FetchFailed (Some []) (Exn ''timed out'') \<and>
    fetch (env_fetch_fails 3) ''id1'' 1 = FetchFailed (Some []) (Exn ''timed out'') \<and>
    fetch (env_fetch_fails 3) ''id1'' 2 = FetchFailed (Some []) (Exn ''timed out'') \<and>
    result_of (download_video (env_fetch_fails 3) ''id1'' ''lec1.mp4'' w0) = Inl (Exn ''timed out'') \<and>
    events_of (download_video (env_fetch_fails 3) ''id1'' ''lec1.mp4'' w0) =
      [EvFetch ''id1'' ''temp_lec1.mp4'', EvSleep 2, EvFetch ''id1'' ''temp_lec1.mp4'',
       EvSleep 4, EvFetch ''id1'' ''temp_lec1.mp4''])"
proof -
  have f0: "fetch env0 ''id1'' 0 = Fetched ''VIDEO''"
    by (simp add: env0_def)
  have f1: "fetch (env_fetch_fails 1) ''id1'' 0 = FetchFailed (Some []) (Exn ''timed out'')"
    "fetch (env_fetch_fails 1) ''id1'' 1 = Fetched ''VIDEO''"
    by (simp_all add: env_fetch_fails_def env0_def)
  have f2: "fetch (env_fetch_fails 2) ''id1'' 0 = FetchFailed (Some []) (Exn ''timed out'')"
    "fetch (env_fetch_fails 2) ''id1'' 1 = FetchFailed (Some []) (Exn ''timed out'')"
    "fetch (env_fetch_fails 2) ''id1'' 2 = Fetched ''VIDEO''"
    by (simp_all add: env_fetch_fails_def env0_def)
  have f3: "fetch (env_fetch_fails 3) ''id1'' 0 = FetchFailed (Some []) (Exn ''timed out'')"
    "fetch (env_fetch_fails 3) ''id1'' 1 = FetchFailed (Some []) (Exn ''timed out'')"
    "fetch (env_fetch_fails 3) ''id1'' 2 = FetchFailed (Some []) (Exn ''timed out'')"
    by (simp_all add: env_fetch_fails_def env0_def)
  have t: "temp_video_of ''lec1.mp4'' = ''temp_lec1.mp4''"
    by (simp add: temp_video_of_def)
  note c0 = download_retry_contract [of env0 "''id1''" "''lec1.mp4''" w0]
  note c1 = download_retry_contract [of "env_fetch_fails 1" "''id1''" "''lec1.mp4''" w0]
  note c2 = download_retry_contract [of "env_fetch_fails 2" "''id1''" "''lec1.mp4''" w0]
  note c3 = download_retry_contract [of "env_fetch_fails 3" "''id1''" "''lec1.mp4''" w0]
  have a0: "events_of (download_video env0 ''id1'' ''lec1.mp4'' w0) =
      [EvFetch ''id1'' ''temp_lec1.mp4'']"
    using c0 f0 t by metis
  have a1: "events_of (download_video (env_fetch_fails 1) ''id1'' ''lec1.mp4'' w0) =
      [EvFetch ''id1'' ''temp_lec1.mp4'', EvSleep 2, EvFetch ''id1'' ''temp_lec1.mp4'']"
    using c1 f1 t by metis
  have a2: "events_of (download_video (env_fetch_fails 2) ''id1'' ''lec1.mp4'' w0) =
      [EvFetch ''id1'' ''temp_lec1.mp4'', EvSleep 2, EvFetch ''id1'' ''temp_lec1.mp4'',
       EvSleep 4, EvFetch ''id1'' ''temp_lec1.mp4'']"
    using c2 f2 t by metis
  have a3: "result_of (download_video (env_fetch_fails 3) ''id1'' ''lec1.mp4'' w0) =
      Inl (Exn ''timed out'') \<and>
    events_of (download_video (env_fetch_fails 3) ''id1'' ''lec1.mp4'' w0) =
      [EvFetch ''id1'' ''temp_lec1.mp4'', EvSleep 2, EvFetch ''id1'' ''temp_lec1.mp4'',
       EvSleep 4, EvFetch ''id1'' ''temp_lec1.mp4'']"
    using c3 f3 t by metis
  from f0 f1 f2 f3 a0 a1 a2 a3 show ?thesis by blast
qed

text \<open>
  C6, as the specification states it.  Two subjects that each list a video named \<^verbatim>\<open>lec1.mp4\<close>
  download to the same local path: \<^verbatim>\<open>download_video\<close> receives the file id and the
  display name only, and names the temp file after the display name.
\<close>

theorem same_temp_path_for_two_subjects:
  "''math'' \<noteq> ''physics'' \<and>
   events_of (process_subject env_two_subjects ''math'' w0) ! 0 =
     EvFetch ''idA'' ''temp_lec1.mp4'' \<and>
   events_of (process_subject env_two_subjects ''physics'' w0) ! 0 =
     EvFetch ''idB'' ''temp_lec1.mp4'' \<and>
   result_of (download_video env_two_subjects ''idA'' ''lec1.mp4'' w0) =
     result_of (download_video env_two_subjects ''idB'' ''lec1.mp4'' w0)"
  by code_simp

text \<open>
  C6, amended.  The temp path of a download is \<^verbatim>\<open>temp_\<close> followed by the display name
  of the video and depends on nothing else, so two downloads have distinct temp paths
  exactly when the display names differ, whatever their subjects.
\<close>

theorem temp_path_from_display_name:
  "(\<forall>p. result_of (download_video env file_id file_name w) = Inr (Some p) \<longrightarrow>
      p = ''temp_'' @ file_name) \<and>
   (\<forall>i p. EvFetch i p \<in> set (events_of (download_video env file_id file_name w)) \<longrightarrow>
      p = ''temp_'' @ file_name) \<and>
   (temp_video_of name1 = temp_video_of name2 \<longleftrightarrow> name1 = name2)"
proof (intro conjI allI impI)
  fix p
  assume "result_of (download_video env file_id file_name w) = Inr (Some p)"
  then show "p = ''temp_'' @ file_name"
    using download_video_result_path temp_video_of_def by metis
next
  fix i p
  assume "EvFetch i p \<in> set (events_of (download_video env file_id file_name w))"
  then show "p = ''temp_'' @ file_name"
    using download_video_fetch_path temp_video_of_def by metis
next
  show "temp_video_of name1 = temp_video_of name2 \<longleftrightarrow> name1 = name2"
    unfolding temp_video_of_def by (rule same_append_eq)
qed


theorem temp_path_from_display_name_witness:
  "result_of (download_video env0 ''id1'' ''lec1.mp4'' w0) = Inr (Some ''temp_lec1.mp4'') \<and>
   EvFetch ''id1'' ''temp_lec1.mp4'' \<in> set (events_of (download_video env0 ''id1'' ''lec1.mp4'' w0)) \<and>
   ''temp_lec1.mp4'' = ''temp_'' @ ''lec1.mp4'' \<and>
   temp_video_of ''lec1.mp4'' \<noteq> temp_video_of ''lec2.mp4''"
proof -
  have r: "result_of (download_video env0 ''id1'' ''lec1.mp4'' w0) = Inr (Some ''temp_lec1.mp4'')"
    by code_simp
  have e: "EvFetch ''id1'' ''temp_lec1.mp4''
      \<in> set (events_of (download_video env0 ''id1'' ''lec1.mp4'' w0))"
    by code_simp
  have n: "''lec1.mp4'' \<noteq> ''lec2.mp4''"
    by simp
  note c = temp_path_from_display_name [of env0 "''id1''" "''lec1.mp4''" w0 "''lec1.mp4''"
      "''lec2.mp4''"]
  have a: "''temp_lec1.mp4'' = ''temp_'' @ ''lec1.mp4''"
    using c r by blast
  have b: "temp_video_of ''lec1.mp4'' \<noteq> temp_video_of ''lec2.mp4''"
    using c n by blast
  from r e a b show ?thesis by blast
qed

section \<open>Properties of the stages\<close>

text \<open>Each stage issues effects of its own kind only.\<close>

lemma download_all_phase:
  "download_all env files w = (rs, w1, evs) \<Longrightarrow> e \<in> set evs \<Longrightarrow> phase_of e = Downloading"
proof (induction files arbitrary: w rs w1 evs)
  case Nil
  then show ?case by simp
next
  case (Cons x files)
  obtain r wa ea where d: "download_video env (f_id x) (f_name x) w = (r, wa, ea)"
    by (cases "download_video env (f_id x) (f_name x) w") auto
  obtain rs' wb eb where a: "download_all env files wa = (rs', wb, eb)"
    by (cases "download_all env files wa") auto
  from Cons.prems d a have "evs = ea @ eb" by simp
  with Cons.prems(2) consider "e \<in> set ea" | "e \<in> set eb" by auto
  then show ?case
  proof cases
    case 1
    then show ?thesis
      using download_video_events_phase [of e env "f_id x" "f_name x" w] d
      by (simp add: events_of_def)
  next
    case 2
    then show ?thesis using Cons.IH [OF a] by simp
  qed
qed


lemma download_video_store:
  "store (world_of (download_video env file_id file_name w)) = store w"
  by (simp add: download_video_unfold world_of_def Let_def put_file_def
      split: fetch_result.splits option.splits)

lemma download_all_store:
  "download_all env files w = (rs, w1, evs) \<Longrightarrow> store w1 = store w"
proof (induction files arbitrary: w rs w1 evs)
  case Nil
  then show ?case by simp
next
  case (Cons x files)
  obtain r wa ea where d: "download_video env (f_id x) (f_name x) w = (r, wa, ea)"
    by (cases "download_video env (f_id x) (f_name x) w") auto
  obtain rs' wb eb where a: "download_all env files wa = (rs', wb, eb)"
    by (cases "download_all env files wa") auto
  from Cons.prems d a have "w1 = wb" by simp
  moreover have "store wa = store w"
    using download_video_store [of env "f_id x" "f_name x" w] d by (simp add: world_of_def)
  ultimately show ?case using Cons.IH [OF a] by simp
qed

lemma transcribe_phase:
  "transcribe_with_ffmpeg_preprocessing env video_path w = (text, w1, evs) \<Longrightarrow>
   e \<in> set evs \<Longrightarrow> phase_of e = Transcribing \<or> phase_of e = Removing"
  by (auto simp: transcribe_with_ffmpeg_preprocessing_def Let_def
      split: option.splits sum.splits if_splits)

lemma transcribe_store:
  "transcribe_with_ffmpeg_preprocessing env video_path w = (text, w1, evs) \<Longrightarrow>
   store w1 = store w"
  by (auto simp: transcribe_with_ffmpeg_preprocessing_def Let_def put_file_def os_remove_def
      split: option.splits sum.splits if_splits)

lemma transcribe_with_progress_cases:
  "transcribe_with_progress env video_path w = (text, w1, evs) \<Longrightarrow>
   (text \<noteq> Some []) \<and> store w1 = store w \<and>
   (\<forall>e\<in>set evs. phase_of e = Transcribing \<or> phase_of e = Removing)"
proof -
  assume a: "transcribe_with_progress env video_path w = (text, w1, evs)"
  obtain t wa ea where t: "transcribe_with_ffmpeg_preprocessing env video_path w = (t, wa, ea)"
    by (cases "transcribe_with_ffmpeg_preprocessing env video_path w") auto
  show ?thesis
  proof (cases "\<not> path_exists w video_path \<or> getsize w video_path = 0")
    case True
    with a show ?thesis by (simp add: transcribe_with_progress_def)
  next
    case False
    with a t have "w1 = wa" "evs = ea" "text \<noteq> Some []"
      by (auto simp: transcribe_with_progress_def split: option.splits if_splits)
    then show ?thesis
      using transcribe_store [OF t] transcribe_phase [OF t] by blast
  qed
qed

lemma set_update_subset:
  "set (AList.update k v al) \<subseteq> insert (k, v) (set al)"
  by (induction al) auto

lemma transcribe_each_cases:
  "transcribe_each env paths results w = (r, w1, evs) \<Longrightarrow>
   (\<forall>(p, t)\<in>set results. t \<noteq> []) \<Longrightarrow>
   (\<forall>(p, t)\<in>set r. t \<noteq> []) \<and> store w1 = store w \<and>
   (\<forall>e\<in>set evs. phase_of e = Transcribing \<or> phase_of e = Removing)"
proof (induction paths arbitrary: results w r w1 evs)
  case Nil
  then show ?case by simp
next
  case (Cons path paths)
  obtain tx wa ea where t: "transcribe_with_progress env path w = (tx, wa, ea)"
    by (cases "transcribe_with_progress env path w") auto
  let ?results = "case tx of Some t \<Rightarrow> AList.update path t results | None \<Rightarrow> results"
  obtain r' wb eb where a: "transcribe_each env paths ?results wa = (r', wb, eb)"
    by (cases "transcribe_each env paths ?results wa") auto
  from Cons.prems(1) t a have eq: "r = r'" "w1 = wb" "evs = ea @ eb" by simp_all
  note c = transcribe_with_progress_cases [OF t]
  have "\<forall>(p, t)\<in>set ?results. t \<noteq> []"
  proof (cases tx)
    case None
    then show ?thesis using Cons.prems(2) by simp
  next
    case (Some t)
    with c have "t \<noteq> []" by simp
    then show ?thesis
      using Some Cons.prems(2) set_update_subset [of path t results] by auto
  qed
  from Cons.IH [OF a this] c eq show ?case by auto
qed

lemma transcribe_multiple_videos_cases:
  "transcribe_multiple_videos env video_paths w = (res, w1, evs) \<Longrightarrow>
   store w1 = store w \<and>
   (\<forall>e\<in>set evs. phase_of e = Transcribing \<or> phase_of e = Removing) \<and>
   (\<forall>r p t. res = Inr r \<and> (p, t) \<in> set r \<longrightarrow> t \<noteq> [])"
proof -
  assume a: "transcribe_multiple_videos env video_paths w = (res, w1, evs)"
  obtain r wa ea where t: "transcribe_each env video_paths [] w = (r, wa, ea)"
    by (cases "transcribe_each env video_paths [] w") auto
  have c: "(\<forall>(p, t)\<in>set r. t \<noteq> []) \<and> store wa = store w \<and>
      (\<forall>e\<in>set ea. phase_of e = Transcribing \<or> phase_of e = Removing)"
    using transcribe_each_cases [OF t] by simp
  from a t consider "w1 = w \<and> evs = [] \<and> (\<exists>e. res = Inl e)" | "res = Inr r \<and> w1 = wa \<and> evs = ea"
    by (auto simp: transcribe_multiple_videos_def Let_def split: option.splits if_splits)
  then show ?thesis
  proof cases
    case 1
    then show ?thesis by auto
  next
    case 2
    with c show ?thesis by auto
  qed
qed

text \<open>The persist step: the write is issued first and the insert only after it
  succeeded, so the store is touched last.\<close>

lemma write_artifact_store:
  "write_artifact env txt_name transcription w = (r, w1) \<Longrightarrow> store w1 = store w"
  by (auto simp: write_artifact_def put_file_def split: option.splits prod.splits)


lemma process_transcribed_video_cases:
  "process_transcribed_video env subject file temp_video transcription w = (w2, evs) \<Longrightarrow>
   (\<exists>e. write_artifact env (txt_name_of (f_name file)) transcription w = (Some e, w2) \<and>
        evs = [EvWrite (txt_name_of (f_name file)) transcription]) \<or>
   (\<exists>w1 r. write_artifact env (txt_name_of (f_name file)) transcription w = (None, w1) \<and>
        insert_one env subject (f_name file) w1 = (r, w2) \<and>
        evs = [EvWrite (txt_name_of (f_name file)) transcription,
               EvInsert subject (f_name file)])"
  by (auto simp: process_transcribed_video_def Let_def split: prod.splits option.splits)

lemma persist_all_events:
  "persist_all env subject transcriptions dv w = (w2, evs) \<Longrightarrow>
   (\<forall>a t. EvWrite a t \<in> set evs \<longrightarrow> (\<exists>p. (p, t) \<in> set transcriptions)) \<and>
   (\<forall>s n. EvInsert s n \<in> set evs \<longrightarrow>
      (\<exists>p t. (p, t) \<in> set transcriptions \<and> EvWrite (txt_name_of n) t \<in> set evs)) \<and>
   (\<forall>e\<in>set evs. phase_of e = Persisting)"
proof (induction dv arbitrary: w w2 evs)
  case Nil
  then show ?case by simp
next
  case (Cons entry dv)
  obtain video_name fl temp_path where entry: "entry = (video_name, fl, temp_path)"
    by (cases entry) auto
  show ?case
  proof (cases "map_of transcriptions temp_path")
    case None
    with Cons.prems entry have "persist_all env subject transcriptions dv w = (w2, evs)"
      by simp
    from Cons.IH [OF this] show ?thesis .
  next
    case (Some t)
    then have mem: "(temp_path, t) \<in> set transcriptions"
      by (rule map_of_SomeD)
    obtain wa ea where p: "process_transcribed_video env subject fl temp_path t w = (wa, ea)"
      by (cases "process_transcribed_video env subject fl temp_path t w") auto
    obtain wb eb where a: "persist_all env subject transcriptions dv wa = (wb, eb)"
      by (cases "persist_all env subject transcriptions dv wa") auto
    from Cons.prems entry Some p a have evs: "evs = ea @ eb" by simp
    from process_transcribed_video_cases [OF p]
    have ea: "ea = [EvWrite (txt_name_of (f_name fl)) t] \<or>
        ea = [EvWrite (txt_name_of (f_name fl)) t, EvInsert subject (f_name fl)]"
      by auto
    note ih = Cons.IH [OF a]
    have w: "\<forall>a t'. EvWrite a t' \<in> set evs \<longrightarrow> (\<exists>p. (p, t') \<in> set transcriptions)"
      using ih ea mem evs by auto
    have i: "\<forall>s n. EvInsert s n \<in> set evs \<longrightarrow>
        (\<exists>p t'. (p, t') \<in> set transcriptions \<and> EvWrite (txt_name_of n) t' \<in> set evs)"
    proof (intro allI impI)
      fix s n
      assume "EvInsert s n \<in> set evs"
      then consider "EvInsert s n \<in> set ea" | "EvInsert s n \<in> set eb"
        using evs by auto
      then show "\<exists>p t'. (p, t') \<in> set transcriptions \<and> EvWrite (txt_name_of n) t' \<in> set evs"
      proof cases
        case 1
        with ea have "n = f_name fl" and "EvWrite (txt_name_of (f_name fl)) t \<in> set ea"
          by auto
        with mem evs show ?thesis by auto
      next
        case 2
        with ih obtain p t' where "(p, t') \<in> set transcriptions"
          "EvWrite (txt_name_of n) t' \<in> set eb" by blast
        with evs show ?thesis by auto
      qed
    qed
    have ph: "\<forall>e\<in>set evs. phase_of e = Persisting"
      using ih ea evs by auto
    from w i ph show ?thesis by blast
  qed
qed

lemma cleanup_disk:
  "cleanup dv w = (w1, evs) \<Longrightarrow>
   store w1 = store w \<and>
   (\<forall>p. disk w1 p = (if p \<in> (\<lambda>(video_name, fl, temp_path). temp_path) ` set dv
                     then None else disk w p)) \<and>
   (\<forall>e\<in>set evs. phase_of e = Removing)"
proof (induction dv arbitrary: w w1 evs)
  case Nil
  then show ?case by simp
next
  case (Cons entry dv)
  obtain video_name fl temp_path where entry: "entry = (video_name, fl, temp_path)"
    by (cases entry) auto
  show ?case
  proof (cases "path_exists w temp_path")
    case True
    obtain wa ea where a: "cleanup dv (os_remove temp_path w) = (wa, ea)"
      by (cases "cleanup dv (os_remove temp_path w)") auto
    with Cons.prems entry True have eq: "w1 = wa" "evs = EvRemove temp_path # ea" by simp_all
    from Cons.IH [OF a] eq entry show ?thesis
      by (auto simp: os_remove_def)
  next
    case False
    with Cons.prems entry have a: "cleanup dv w = (w1, evs)" by simp
    from False have "disk w temp_path = None" by (simp add: path_exists_def)
    with Cons.IH [OF a] entry show ?thesis by auto
  qed
qed

section \<open>Properties of the subject pipeline\<close>

lemma after_download_cases:
  assumes "after_download env subject dv w = (r, w', evs)"
  shows "(dv = [] \<and> r = Inr NoDownloads \<and> w' = w \<and> evs = []) \<or>
    (\<exists>e. dv \<noteq> [] \<and> r = Inl e \<and>
       transcribe_multiple_videos env
         (map (\<lambda>(video_name, fl, temp_path). temp_path) dv) w = (Inl e, w', evs)) \<or>
    (\<exists>w1 evs1 evs2. dv \<noteq> [] \<and> r = Inr NoTranscriptions \<and>
       transcribe_multiple_videos env
         (map (\<lambda>(video_name, fl, temp_path). temp_path) dv) w = (Inr [], w1, evs1) \<and>
       cleanup dv w1 = (w', evs2) \<and> evs = evs1 @ evs2) \<or>
    (\<exists>tr w1 evs1 w2 evs2 evs3. dv \<noteq> [] \<and> r = Inr Completed \<and> tr \<noteq> [] \<and>
       transcribe_multiple_videos env
         (map (\<lambda>(video_name, fl, temp_path). temp_path) dv) w = (Inr tr, w1, evs1) \<and>
       persist_all env subject tr dv w1 = (w2, evs2) \<and>
       cleanup dv w2 = (w', evs3) \<and> evs = evs1 @ evs2 @ evs3)"
proof (cases "dv = []")
  case True
  with assms show ?thesis by (simp add: after_download_def)
next
  case False
  let ?paths = "map (\<lambda>(video_name, fl, temp_path). temp_path) dv"
  obtain res w1 evs1 where t: "transcribe_multiple_videos env ?paths w = (res, w1, evs1)"
    by (cases "transcribe_multiple_videos env ?paths w") auto
  show ?thesis
  proof (cases res)
    case (Inl e)
    with assms False t show ?thesis by (simp add: after_download_def)
  next
    case (Inr tr)
    show ?thesis
    proof (cases "tr = []")
      case True
      obtain w2 evs2 where c: "cleanup dv w1 = (w2, evs2)"
        by (cases "cleanup dv w1") auto
      with assms False t Inr True show ?thesis by (simp add: after_download_def)
    next
      case nonempty: False
      obtain w2 evs2 where p: "persist_all env subject tr dv w1 = (w2, evs2)"
        by (cases "persist_all env subject tr dv w1") auto
      obtain w3 evs3 where c: "cleanup dv w2 = (w3, evs3)"
        by (cases "cleanup dv w2") auto
      from assms False t Inr nonempty p c show ?thesis by (simp add: after_download_def)
    qed
  qed
qed

text \<open>Whenever the part after the downloads returns without an exception, every temp
  file recorded in \<^verbatim>\<open>downloaded_videos\<close> is gone.\<close>

lemma after_download_removes:
  assumes "after_download env subject dv w = (Inr d, w', evs)"
    and "(video_name, fl, temp_path) \<in> set dv"
  shows "disk w' temp_path = None"
proof -
  have mem: "temp_path \<in> (\<lambda>(video_name, fl, temp_path). temp_path) ` set dv"
    using assms(2) by force
  from after_download_cases [OF assms(1)] assms(2)
  obtain wa ea where "cleanup dv wa = (w', ea)" by auto
  from cleanup_disk [OF this] mem show ?thesis by simp
qed

lemma process_subject_body_cases:
  assumes "process_subject_body env subject w = (r, w', evs)"
  shows "(w' = w \<and> evs = [] \<and> (r = Inr NoVideos \<or> r = Inr NoUnprocessed \<or> (\<exists>e. r = Inl e))) \<or>
    (\<exists>folder files pending rs w1 evs1 evs2.
       map_of (subjects env) subject = Some (Some folder) \<and>
       drive_list env folder = Inr files \<and>
       filter_unprocessed env subject files w = Inr pending \<and> pending \<noteq> [] \<and>
       download_all env pending w = (rs, w1, evs1) \<and>
       after_download env subject (verify_downloads w1 rs []) w1 = (r, w', evs2) \<and>
       evs = evs1 @ evs2)"
proof (cases "map_of (subjects env) subject")
  case None
  with assms show ?thesis by (auto simp: process_subject_body_def)
next
  case (Some folder_opt)
  show ?thesis
  proof (cases folder_opt)
    case None
    with assms Some show ?thesis by (auto simp: process_subject_body_def)
  next
    case folder: (Some folder)
    show ?thesis
    proof (cases "drive_list env folder")
      case (Inl e)
      with assms Some folder show ?thesis by (auto simp: process_subject_body_def)
    next
      case (Inr files)
      show ?thesis
      proof (cases "filter_unprocessed env subject files w")
        case fl: (Inl e)
        with assms Some folder Inr show ?thesis
          by (auto simp: process_subject_body_def split: if_splits)
      next
        case fr: (Inr pending)
        show ?thesis
        proof (cases "files = [] \<or> pending = []")
          case True
          with assms Some folder Inr fr show ?thesis
            by (auto simp: process_subject_body_def split: if_splits)
        next
          case False
          obtain rs w1 evs1 where d: "download_all env pending w = (rs, w1, evs1)"
            by (cases "download_all env pending w") auto
          obtain r2 w2 evs2 where
            a: "after_download env subject (verify_downloads w1 rs []) w1 = (r2, w2, evs2)"
            by (cases "after_download env subject (verify_downloads w1 rs []) w1") auto
          from assms Some folder Inr fr False d a
          have "r = r2" "w' = w2" "evs = evs1 @ evs2"
            by (simp_all add: process_subject_body_def)
          with Some folder Inr fr False d a show ?thesis by auto
        qed
      qed
    qed
  qed
qed

lemma process_subject_unfold:
  "process_subject env subject w =
     (case process_subject_body env subject w of
        (r, w1, evs) \<Rightarrow> ((case r of Inl e \<Rightarrow> Aborted e | Inr d \<Rightarrow> Done d), w1, evs))"
  by (simp add: process_subject_def split: prod.splits sum.splits)

lemma filter_unprocessed_all_done:
  "\<forall>f\<in>set files. (subject, f_name f) \<in> set (store w) \<Longrightarrow>
   filter_unprocessed env subject files w = Inr pending \<Longrightarrow> pending = []"
proof (induction files arbitrary: pending)
  case Nil
  then show ?case by simp
next
  case (Cons x files)
  from Cons.prems(2) obtain rest where
    rest: "filter_unprocessed env subject files w = Inr rest"
    and found: "find_one env subject (f_name x) w = Inr True \<and> pending = rest \<or>
      find_one env subject (f_name x) w = Inr False \<and> pending = x # rest"
    by (auto split: sum.splits if_splits)
  from Cons.prems(1) have "find_one env subject (f_name x) w \<noteq> Inr False"
    by (auto simp: find_one_def split: option.splits)
  with found have "pending = rest" by auto
  moreover from Cons.IH [OF _ rest] Cons.prems(1) have "rest = []" by simp
  ultimately show ?case by simp
qed

lemma process_subject_all_done:
  assumes "\<forall>folder files. map_of (subjects env) subject = Some (Some folder) \<and>
      drive_list env folder = Inr files \<longrightarrow>
      (\<forall>f\<in>set files. (subject, f_name f) \<in> set (store w))"
  shows "\<exists>out. process_subject env subject w = (out, w, []) \<and>
      (out = Done NoVideos \<or> out = Done NoUnprocessed \<or> (\<exists>e. out = Aborted e))"
proof -
  obtain r w' evs where b: "process_subject_body env subject w = (r, w', evs)"
    by (cases "process_subject_body env subject w") auto
  from process_subject_body_cases [OF b]
  have "w' = w \<and> evs = [] \<and> (r = Inr NoVideos \<or> r = Inr NoUnprocessed \<or> (\<exists>e. r = Inl e))"
  proof (elim disjE exE conjE)
    fix folder files pending rs w1 evs1 evs2
    assume "map_of (subjects env) subject = Some (Some folder)"
      "drive_list env folder = Inr files"
      "filter_unprocessed env subject files w = Inr pending" "pending \<noteq> []"
    with assms filter_unprocessed_all_done [of files subject w env pending]
    show ?thesis by blast
  qed auto
  with b show ?thesis by (auto simp: process_subject_unfold)
qed

lemma run_subjects_all_done:
  assumes "\<forall>subject folder files. map_of (subjects env) subject = Some (Some folder) \<and>
      drive_list env folder = Inr files \<longrightarrow>
      (\<forall>f\<in>set files. (subject, f_name f) \<in> set (store w))"
  shows "\<exists>outs. run_subjects env ss w = (outs, w, []) \<and>
      (\<forall>(s, out)\<in>set outs.
         out = Done NoVideos \<or> out = Done NoUnprocessed \<or> (\<exists>e. out = Aborted e))"
proof (induction ss)
  case Nil
  then show ?case by simp
next
  case (Cons s ss)
  from assms have "\<forall>folder files. map_of (subjects env) s = Some (Some folder) \<and>
      drive_list env folder = Inr files \<longrightarrow>
      (\<forall>f\<in>set files. (s, f_name f) \<in> set (store w))" by blast
  from process_subject_all_done [OF this] obtain out where
    p: "process_subject env s w = (out, w, [])"
    and o: "out = Done NoVideos \<or> out = Done NoUnprocessed \<or> (\<exists>e. out = Aborted e)" by blast
  from Cons.IH obtain outs where r: "run_subjects env ss w = (outs, w, [])"
    and os: "\<forall>(s, out)\<in>set outs.
         out = Done NoVideos \<or> out = Done NoUnprocessed \<or> (\<exists>e. out = Aborted e)" by blast
  from p r have "run_subjects env (s # ss) w = ((s, out) # outs, w, [])" by simp
  with o os show ?case by auto
qed

text \<open>
  C1.  When every video listed for every subject already has its record in the store, a
  run of the coordinator issues no effect at all: no download attempt, no transcription,
  and the disk and the store are left as they were.  Every subject ends in the filter
  with nothing pending (or earlier: an empty listing, or an error of the listing or of
  the store query), before a download task is created.
\<close>

theorem second_run_idempotent:
  assumes "\<forall>subject folder files. map_of (subjects env) subject = Some (Some folder) \<and>
      drive_list env folder = Inr files \<longrightarrow>
      (\<forall>f\<in>set files. (subject, f_name f) \<in> set (store w))"
  shows "filter is_fetch (events_of (main env w)) = [] \<and>
    filter (\<lambda>e. phase_of e = Transcribing) (events_of (main env w)) = [] \<and>
    events_of (main env w) = [] \<and> world_of (main env w) = w \<and>
    (\<forall>(s, out)\<in>set (result_of (main env w)).
       out = Done NoVideos \<or> out = Done NoUnprocessed \<or> (\<exists>e. out = Aborted e))"
  using run_subjects_all_done [OF assms, of "map fst (subjects env)"]
  by (auto simp: main_def events_of_def world_of_def result_of_def)

theorem second_run_idempotent_witness:
  "store w_done = [(''math'', ''lec1.mp4'')] \<and>
   events_of (main env0 w_done) = [] \<and> world_of (main env0 w_done) = w_done \<and>
   result_of (main env0 w_done) = [(''math'', Done NoUnprocessed)]"
proof -
  have h: "\<forall>subject folder files. map_of (subjects env0) subject = Some (Some folder) \<and>
      drive_list env0 folder = Inr files \<longrightarrow>
      (\<forall>f\<in>set files. (subject, f_name f) \<in> set (store w_done))"
    by (auto simp: env0_def w_done_def split: if_splits)
  have r: "result_of (main env0 w_done) = [(''math'', Done NoUnprocessed)]"
    by code_simp
  have s: "store w_done = [(''math'', ''lec1.mp4'')]"
    by (simp add: w_done_def)
  from second_run_idempotent [OF h] r s show ?thesis by blast
qed

section \<open>Properties of the coordinator\<close>

lemma process_subject_listing_raises:
  "map_of (subjects env) b = Some (Some folder) \<Longrightarrow> drive_list env folder = Inl e \<Longrightarrow>
   process_subject env b w = (Aborted e, w, [])"
  by (simp add: process_subject_def process_subject_body_def)

lemma run_subjects_append:
  "run_subjects env (xs @ ys) w =
     (case run_subjects env xs w of
        (outs1, w1, evs1) \<Rightarrow>
          (case run_subjects env ys w1 of
             (outs2, w2, evs2) \<Rightarrow> (outs1 @ outs2, w2, evs1 @ evs2)))"
  by (induction xs arbitrary: w) (simp_all split: prod.splits)

lemma run_subjects_names:
  "map fst (result_of (run_subjects env ss w)) = ss"
proof (induction ss arbitrary: w)
  case Nil
  then show ?case by (simp add: result_of_def)
next
  case (Cons s ss)
  obtain out w1 evs1 where p: "process_subject env s w = (out, w1, evs1)"
    by (cases "process_subject env s w") auto
  obtain outs w2 evs2 where r: "run_subjects env ss w1 = (outs, w2, evs2)"
    by (cases "run_subjects env ss w1") auto
  from Cons.IH [of w1] r have "map fst outs = ss" by (simp add: result_of_def)
  with p r show ?case by (simp add: result_of_def)
qed

lemma run_subjects_length:
  "run_subjects env ss w = (outs, w1, evs) \<Longrightarrow> length outs = length ss"
  using run_subjects_names [of env ss w] by (metis result_of_def fst_conv length_map)

lemma run_subjects_skip_aborted:
  assumes "process_subject env b = (\<lambda>w. (Aborted e, w, []))"
    and "run_subjects env (before @ after) w = (outs, w', evs)"
  shows "run_subjects env (before @ b # after) w =
     (take (length before) outs @ (b, Aborted e) # drop (length before) outs, w', evs)"
proof -
  obtain o1 w1 e1 where r1: "run_subjects env before w = (o1, w1, e1)"
    by (cases "run_subjects env before w") auto
  obtain o2 w2 e2 where r2: "run_subjects env after w1 = (o2, w2, e2)"
    by (cases "run_subjects env after w1") auto
  from assms(2) r1 r2 have eq: "outs = o1 @ o2" "w' = w2" "evs = e1 @ e2"
    by (simp_all add: run_subjects_append)
  have len: "length o1 = length before"
    using run_subjects_length [OF r1] .
  have "run_subjects env (b # after) w1 = ((b, Aborted e) # o2, w2, e2)"
    using assms(1) r2 by simp
  with r1 have "run_subjects env (before @ b # after) w = (o1 @ (b, Aborted e) # o2, w2, e1 @ e2)"
    by (simp add: run_subjects_append)
  with eq len show ?thesis by simp
qed

text \<open>
  C8.  The coordinator returns an outcome for every configured subject, in order: an
  exception raised anywhere in the body of a subject run is caught by that run and
  becomes its outcome \<open>Aborted\<close>.  A subject whose listing raises ends \<open>Aborted\<close> without
  touching the disk or the store and without any effect, and the other subjects run as
  if it were not configured: same outcomes, same final world, same effects.
\<close>

theorem subject_isolation:
  "map fst (result_of (main env w)) = map fst (subjects env) \<and>
   (\<forall>s e. result_of (process_subject env s w) = Aborted e \<longleftrightarrow>
      result_of (process_subject_body env s w) = Inl e) \<and>
   (map_of (subjects env) b = Some (Some folder) \<and> drive_list env folder = Inl e \<longrightarrow>
      process_subject env b w = (Aborted e, w, []) \<and>
      (\<forall>before after outs w' evs.
         run_subjects env (before @ after) w = (outs, w', evs) \<longrightarrow>
         run_subjects env (before @ b # after) w =
           (take (length before) outs @ (b, Aborted e) # drop (length before) outs, w', evs)))"
proof (intro conjI allI impI)
  show "map fst (result_of (main env w)) = map fst (subjects env)"
    by (simp add: main_def run_subjects_names)
next
  fix s e
  show "result_of (process_subject env s w) = Aborted e \<longleftrightarrow>
      result_of (process_subject_body env s w) = Inl e"
    by (auto simp: process_subject_def result_of_def split: prod.splits sum.splits)
next
  assume "map_of (subjects env) b = Some (Some folder) \<and> drive_list env folder = Inl e"
  then show "process_subject env b w = (Aborted e, w, [])"
    by (simp add: process_subject_listing_raises)
next
  fix before after outs w' evs
  assume h: "map_of (subjects env) b = Some (Some folder) \<and> drive_list env folder = Inl e"
    and r: "run_subjects env (before @ after) w = (outs, w', evs)"
  from h have "process_subject env b = (\<lambda>w. (Aborted e, w, []))"
    by (auto simp: process_subject_listing_raises)
  from run_subjects_skip_aborted [OF this r]
  show "run_subjects env (before @ b # after) w =
      (take (length before) outs @ (b, Aborted e) # drop (length before) outs, w', evs)" .
qed

theorem subject_isolation_witness:
  "map_of (subjects env_three_subjects) ''biology'' = Some (Some ''folderB'') \<and>
   drive_list env_three_subjects ''folderB'' = Inl (Exn ''HttpError 403'') \<and>
   result_of (main env_three_subjects w0) =
     [(''algebra'', Done Completed), (''biology'', Aborted (Exn ''HttpError 403'')),
      (''chemistry'', Done Completed)] \<and>
   store (world_of (main env_three_subjects w0)) =
     [(''algebra'', ''a1.mp4''), (''chemistry'', ''c1.mp4'')] \<and>
   result_of (run_subjects env_three_subjects [''algebra'', ''chemistry''] w0) =
     [(''algebra'', Done Completed), (''chemistry'', Done Completed)] \<and>
   world_of (main env_three_subjects w0) =
     world_of (run_subjects env_three_subjects [''algebra'', ''chemistry''] w0) \<and>
   events_of (main env_three_subjects w0) =
     events_of (run_subjects env_three_subjects [''algebra'', ''chemistry''] w0)"
proof -
  have m: "map_of (subjects env_three_subjects) ''biology'' = Some (Some ''folderB'')"
    by (simp add: env_three_subjects_def)
  have d: "drive_list env_three_subjects ''folderB'' = Inl (Exn ''HttpError 403'')"
    by (simp add: env_three_subjects_def)
  have names: "map fst (subjects env_three_subjects) = [''algebra''] @ ''biology'' # [''chemistry'']"
    by (simp add: env_three_subjects_def)
  have two: "result_of (run_subjects env_three_subjects ([''algebra''] @ [''chemistry'']) w0) =
     [(''algebra'', Done Completed), (''chemistry'', Done Completed)]"
    by code_simp
  have st: "store (world_of (run_subjects env_three_subjects ([''algebra''] @ [''chemistry'']) w0)) =
     [(''algebra'', ''a1.mp4''), (''chemistry'', ''c1.mp4'')]"
    by code_simp
  obtain outs w' evs where
    r: "run_subjects env_three_subjects ([''algebra''] @ [''chemistry'']) w0 = (outs, w', evs)"
    by (cases "run_subjects env_three_subjects ([''algebra''] @ [''chemistry'']) w0") auto
  from subject_isolation [of env_three_subjects w0 "''biology''" "''folderB''" "Exn ''HttpError 403''"]
    m d r
  have "run_subjects env_three_subjects ([''algebra''] @ ''biology'' # [''chemistry'']) w0 =
      (take (length [''algebra'']) outs @ (''biology'', Aborted (Exn ''HttpError 403''))
         # drop (length [''algebra'']) outs, w', evs)"
    by blast
  with names have mn: "main env_three_subjects w0 =
      (take 1 outs @ (''biology'', Aborted (Exn ''HttpError 403'')) # drop 1 outs, w', evs)"
    by (simp add: main_def)
  from two r have outs: "outs = [(''algebra'', Done Completed), (''chemistry'', Done Completed)]"
    by (simp add: result_of_def)
  from st r have st': "store w' = [(''algebra'', ''a1.mp4''), (''chemistry'', ''c1.mp4'')]"
    by (simp add: world_of_def)
  from mn outs st' r m d show ?thesis
    by (simp add: result_of_def world_of_def events_of_def)
qed

text \<open>
  C3.  The temp files of a subject run are to be gone when the run ends, on every path.
  Two runs that leave one behind, on a disk that did not hold it before.  In the first,
  the three download attempts fail after \<^verbatim>\<open>open\<close> created the file: the run ends with
  no video downloaded and returns before any cleanup.  In the second, the download
  succeeds and \<^verbatim>\<open>os.cpu_count()\<close> is \<^verbatim>\<open>None\<close>: the \<^verbatim>\<open>TypeError\<close> raised in
  \<^verbatim>\<open>transcribe_multiple_videos\<close> reaches the \<^verbatim>\<open>except\<close> clause, which removes nothing.
\<close>

theorem temp_video_left_behind:
  "disk w0 ''temp_lec1.mp4'' = None \<and>
   result_of (process_subject (env_fetch_fails 3) ''math'' w0) = Done NoDownloads \<and>
   disk (world_of (process_subject (env_fetch_fails 3) ''math'' w0)) ''temp_lec1.mp4'' = Some [] \<and>
   result_of (process_subject env_no_cpu_count ''math'' w0) =
     Aborted (Exn ''unsupported operand type(s) for -: NoneType and int'') \<and>
   disk (world_of (process_subject env_no_cpu_count ''math'' w0)) ''temp_lec1.mp4'' =
     Some ''VIDEO''"
  by code_simp

lemma process_subject_persist_events:
  assumes "process_subject env s w = (out, w', evs)"
    and "e \<in> set evs" and "phase_of e = Persisting"
  shows "\<exists>tr dv w1 w2 evs2 paths wa ea.
      transcribe_multiple_videos env paths wa = (Inr tr, w1, ea) \<and>
      persist_all env s tr dv w1 = (w2, evs2) \<and> e \<in> set evs2 \<and> set evs2 \<subseteq> set evs"
proof -
  obtain r where b: "process_subject_body env s w = (r, w', evs)"
    using assms(1) by (auto simp: process_subject_unfold split: prod.splits)
  from process_subject_body_cases [OF b] assms(2)
  obtain pending rs wa evs1 evs2 where
    d: "download_all env pending w = (rs, wa, evs1)"
    and a: "after_download env s (verify_downloads wa rs []) wa = (r, w', evs2)"
    and evs: "evs = evs1 @ evs2"
    by auto
  have "e \<notin> set evs1"
    using download_all_phase [OF d] assms(3) by auto
  with assms(2) evs have e2: "e \<in> set evs2" by simp
  let ?dv = "verify_downloads wa rs []"
  let ?paths = "map (\<lambda>(video_name, fl, temp_path). temp_path) ?dv"
  from after_download_cases [OF a] e2
  consider (failed) e' where "transcribe_multiple_videos env ?paths wa = (Inl e', w', evs2)"
    | (none) wb ea eb where "transcribe_multiple_videos env ?paths wa = (Inr [], wb, ea)"
        "cleanup ?dv wb = (w', eb)" "evs2 = ea @ eb"
    | (some) tr wb ea wc eb ec where "transcribe_multiple_videos env ?paths wa = (Inr tr, wb, ea)"
        "persist_all env s tr ?dv wb = (wc, eb)" "cleanup ?dv wc = (w', ec)"
        "evs2 = ea @ eb @ ec"
    by auto
  then show ?thesis
  proof cases
    case failed
    from transcribe_multiple_videos_cases [OF failed] e2 assms(3) show ?thesis by auto
  next
    case none
    from transcribe_multiple_videos_cases [OF none(1)] cleanup_disk [OF none(2)] none(3) e2
      assms(3)
    show ?thesis by auto
  next
    case some
    from transcribe_multiple_videos_cases [OF some(1)] cleanup_disk [OF some(3)] some(4) e2
      assms(3)
    have "e \<in> set eb" by auto
    moreover have "set eb \<subseteq> set evs" using some(4) evs by auto
    ultimately show ?thesis using some(1,2) by blast
  qed
qed

section \<open>Properties of the persist step\<close>



text \<open>A video reaches the persist step unmarked: the filter kept it because the store
  had no record of it, no stage before the persist step touches the store, and the
  entries of \<^verbatim>\<open>downloaded_videos\<close> persisted before it have other names.\<close>

lemma filter_unprocessed_pending:
  "filter_unprocessed env subject files w = Inr pending \<Longrightarrow> f \<in> set pending \<Longrightarrow>
   f \<in> set files \<and> (subject, f_name f) \<notin> set (store w)"
proof (induction files arbitrary: pending)
  case Nil
  then show ?case by simp
next
  case (Cons x files)
  from Cons.prems(1) obtain rest found where
    rest: "filter_unprocessed env subject files w = Inr rest"
    and found: "find_one env subject (f_name x) w = Inr found"
    and pending: "pending = (if found then rest else x # rest)"
    by (auto split: sum.splits)
  show ?case
  proof (cases "f \<in> set rest")
    case True
    from Cons.IH [OF rest True] show ?thesis by simp
  next
    case False
    with Cons.prems(2) pending have "f = x" "\<not> found" by (auto split: if_splits)
    with found show ?thesis by (auto simp: find_one_def split: option.splits)
  qed
qed

lemma download_all_files:
  "download_all env files w = (rs, w1, evs) \<Longrightarrow> map fst rs = files"
proof (induction files arbitrary: w rs w1 evs)
  case Nil
  then show ?case by simp
next
  case (Cons x files)
  obtain r wa ea where d: "download_video env (f_id x) (f_name x) w = (r, wa, ea)"
    by (cases "download_video env (f_id x) (f_name x) w") auto
  obtain rs' wb eb where a: "download_all env files wa = (rs', wb, eb)"
    by (cases "download_all env files wa") auto
  from Cons.prems d a have "rs = (x, r) # rs'" by simp
  with Cons.IH [OF a] show ?case by simp
qed

lemma verify_downloads_inv:
  "distinct (map fst dv) \<Longrightarrow>
   \<forall>(n, f, p)\<in>set dv. n = f_name f \<and> f \<in> F \<Longrightarrow>
   fst ` set rs \<subseteq> F \<Longrightarrow>
   distinct (map fst (verify_downloads w rs dv)) \<and>
   (\<forall>(n, f, p)\<in>set (verify_downloads w rs dv). n = f_name f \<and> f \<in> F)"
proof (induction rs arbitrary: dv)
  case Nil
  then show ?case by simp
next
  case (Cons x rs)
  obtain fl r where x: "x = (fl, r)" by (cases x) auto
  let ?dv = "case r of
          Inr (Some temp_path) \<Rightarrow>
            if path_exists w temp_path \<and> getsize w temp_path > 0
            then AList.update (f_name fl) (fl, temp_path) dv
            else dv
        | Inr None \<Rightarrow> dv
        | Inl e \<Rightarrow> dv"
  have fl: "fl \<in> F" using Cons.prems(3) x by auto
  have d: "distinct (map fst ?dv)"
    using Cons.prems(1) by (auto simp: distinct_update split: sum.splits option.splits)
  have i: "\<forall>(n, f, p)\<in>set ?dv. n = f_name f \<and> f \<in> F"
  proof (cases r)
    case (Inl e)
    then show ?thesis using Cons.prems(2) by simp
  next
    case (Inr po)
    show ?thesis
    proof (cases po)
      case None
      with Inr show ?thesis using Cons.prems(2) by simp
    next
      case (Some temp_path)
      show ?thesis
      proof (cases "path_exists w temp_path \<and> getsize w temp_path > 0")
        case True
        with Inr Some have "?dv = AList.update (f_name fl) (fl, temp_path) dv" by simp
        then show ?thesis
          using set_update_subset [of "f_name fl" "(fl, temp_path)" dv] Cons.prems(2) fl
          by auto
      next
        case False
        with Inr Some have "?dv = dv" by auto
        then show ?thesis using Cons.prems(2) by simp
      qed
    qed
  qed
  have "fst ` set rs \<subseteq> F" using Cons.prems(3) by auto
  from Cons.IH [OF d i this] x show ?case by simp
qed

lemma persist_all_append:
  "persist_all env subject tr (xs @ ys) w =
     (case persist_all env subject tr xs w of
        (w1, evs1) \<Rightarrow>
          (case persist_all env subject tr ys w1 of (w2, evs2) \<Rightarrow> (w2, evs1 @ evs2)))"
  by (induction xs arbitrary: w) (auto split: prod.splits option.splits)

lemma process_transcribed_video_store:
  "process_transcribed_video env subject fl temp_video transcription w = (w2, evs) \<Longrightarrow>
   set (store w2) \<subseteq> insert (subject, f_name fl) (set (store w))"
proof -
  assume p: "process_transcribed_video env subject fl temp_video transcription w = (w2, evs)"
  from process_transcribed_video_cases [OF p]
  show ?thesis
  proof (elim disjE exE conjE)
    fix e
    assume "write_artifact env (txt_name_of (f_name fl)) transcription w = (Some e, w2)"
    from write_artifact_store [OF this] show ?thesis by auto
  next
    fix w1 r
    assume wr: "write_artifact env (txt_name_of (f_name fl)) transcription w = (None, w1)"
      and ins: "insert_one env subject (f_name fl) w1 = (r, w2)"
    from ins have "set (store w2) \<subseteq> insert (subject, f_name fl) (set (store w1))"
      by (auto simp: insert_one_def split: option.splits)
    with write_artifact_store [OF wr] show ?thesis by simp
  qed
qed

lemma persist_all_store:
  "persist_all env subject tr dv w = (w2, evs) \<Longrightarrow>
   set (store w2) \<subseteq> set (store w) \<union> (\<lambda>(n, f, p). (subject, f_name f)) ` set dv"
proof (induction dv arbitrary: w w2 evs)
  case Nil
  then show ?case by simp
next
  case (Cons entry dv)
  obtain video_name fl temp_path where entry: "entry = (video_name, fl, temp_path)"
    by (cases entry) auto
  show ?case
  proof (cases "map_of tr temp_path")
    case None
    with Cons.prems entry have "persist_all env subject tr dv w = (w2, evs)" by simp
    from Cons.IH [OF this] show ?thesis by auto
  next
    case (Some t)
    obtain wa ea where p: "process_transcribed_video env subject fl temp_path t w = (wa, ea)"
      by (cases "process_transcribed_video env subject fl temp_path t w") auto
    obtain wb eb where a: "persist_all env subject tr dv wa = (wb, eb)"
      by (cases "persist_all env subject tr dv wa") auto
    from Cons.prems entry Some p a have "w2 = wb" by simp
    with Cons.IH [OF a] process_transcribed_video_store [OF p] entry show ?thesis by auto
  qed
qed

lemma persist_reaches_unmarked:
  assumes "filter_unprocessed env subject files w = Inr pending"
    and "download_all env pending w = (rs, w1, evs1)"
    and "verify_downloads w1 rs [] = before @ (n, f, p) # after"
    and "transcribe_multiple_videos env paths w1 = (res, w2, evs2)"
    and "persist_all env subject tr before w2 = (w3, evs3)"
  shows "(subject, f_name f) \<notin> set (store w3)"
proof -
  let ?dv = "verify_downloads w1 rs []"
  have "fst ` set rs \<subseteq> set pending"
    using download_all_files [OF assms(2)] by (metis set_map subset_refl)
  from verify_downloads_inv [of "[]" "set pending" rs w1, OF _ _ this]
  have dist: "distinct (map fst ?dv)"
    and inv: "\<forall>(n, f, p)\<in>set ?dv. n = f_name f \<and> f \<in> set pending"
    by simp_all
  from inv assms(3) have f: "n = f_name f" "f \<in> set pending" by auto
  have "store w2 = store w"
    using transcribe_multiple_videos_cases [OF assms(4)] download_all_store [OF assms(2)]
    by simp
  with filter_unprocessed_pending [OF assms(1) f(2)]
  have unmarked: "(subject, f_name f) \<notin> set (store w2)" by simp
  have "(subject, f_name f) \<notin> (\<lambda>(n, f, p). (subject, f_name f)) ` set before"
  proof
    assume "(subject, f_name f) \<in> (\<lambda>(n, f, p). (subject, f_name f)) ` set before"
    then obtain n' f' p' where m: "(n', f', p') \<in> set before" and eq: "f_name f' = f_name f"
      by auto
    from m assms(3) have "(n', f', p') \<in> set ?dv" by simp
    with inv have "n' = f_name f'" by blast
    with eq f(1) have "n' = n" by simp
    with m have "n \<in> fst ` set before" by force
    with dist assms(3) show False by auto
  qed
  with persist_all_store [OF assms(5)] unmarked show ?thesis by auto
qed






section \<open>What reaches the mapping, the artifacts and the store\<close>

lemma transcribe_with_progress_some:
  "transcribe_with_progress env p w = (Some t, w1, evs) \<Longrightarrow>
   result_of (transcribe_with_ffmpeg_preprocessing env p w) = Some t \<and> t \<noteq> []"
  by (auto simp: transcribe_with_progress_def result_of_def
      split: if_splits prod.splits option.splits)

lemma transcribe_with_progress_empty:
  "result_of (transcribe_with_ffmpeg_preprocessing env p w) = Some [] \<Longrightarrow>
   result_of (transcribe_with_progress env p w) = None"
  by (auto simp: transcribe_with_progress_def result_of_def split: prod.splits option.splits)

text \<open>Every entry of the mapping is a text that the transcriber returned for that path,
  and that text is not empty.\<close>

lemma transcribe_each_entries:
  "transcribe_each env paths results w = (r, w1, evs) \<Longrightarrow> (p, t) \<in> set r \<Longrightarrow>
   (p, t) \<in> set results \<or>
   (p \<in> set paths \<and>
    (\<exists>w'. result_of (transcribe_with_ffmpeg_preprocessing env p w') = Some t \<and> t \<noteq> []))"
proof (induction paths arbitrary: results w r w1 evs)
  case Nil
  then show ?case by simp
next
  case (Cons path paths)
  obtain tx wa ea where t: "transcribe_with_progress env path w = (tx, wa, ea)"
    by (cases "transcribe_with_progress env path w") auto
  let ?results = "case tx of Some t \<Rightarrow> AList.update path t results | None \<Rightarrow> results"
  obtain r' wb eb where a: "transcribe_each env paths ?results wa = (r', wb, eb)"
    by (cases "transcribe_each env paths ?results wa") auto
  from Cons.prems(1) t a have "r = r'" by simp
  with Cons.prems(2) have "(p, t) \<in> set r'" by simp
  from Cons.IH [OF a this]
  consider "(p, t) \<in> set ?results"
    | "p \<in> set paths \<and>
       (\<exists>w'. result_of (transcribe_with_ffmpeg_preprocessing env p w') = Some t \<and> t \<noteq> [])"
    by blast
  then show ?case
  proof cases
    case 1
    show ?thesis
    proof (cases tx)
      case None
      with 1 show ?thesis by simp
    next
      case (Some t')
      with 1 have "(p, t) \<in> set (AList.update path t' results)" by simp
      with set_update_subset [of path t' results]
      consider "(p, t) = (path, t')" | "(p, t) \<in> set results" by auto
      then show ?thesis
      proof cases
        case 1
        with Some t have "transcribe_with_progress env p w = (Some t, wa, ea)" by simp
        from transcribe_with_progress_some [OF this] 1 show ?thesis by auto
      next
        case 2
        then show ?thesis by simp
      qed
    qed
  next
    case 2
    then show ?thesis by auto
  qed
qed

lemma transcribe_multiple_videos_entries:
  assumes "transcribe_multiple_videos env video_paths w = (Inr r, w1, evs)"
    and "(p, t) \<in> set r"
  shows "p \<in> set video_paths \<and>
    (\<exists>w'. result_of (transcribe_with_ffmpeg_preprocessing env p w') = Some t \<and> t \<noteq> [])"
proof -
  obtain r' wa ea where t: "transcribe_each env video_paths [] w = (r', wa, ea)"
    by (cases "transcribe_each env video_paths [] w") auto
  with assms(1) have "r = r'"
    by (auto simp: transcribe_multiple_videos_def Let_def split: option.splits if_splits)
  with transcribe_each_entries [OF t, of p t] assms(2) show ?thesis by simp
qed

lemma transcribe_multiple_videos_single_empty:
  assumes "result_of (transcribe_with_ffmpeg_preprocessing env p w) = Some []"
    and "result_of (transcribe_multiple_videos env [p] w) = Inr r"
  shows "r = []"
proof -
  obtain tx wa ea where t: "transcribe_with_progress env p w = (tx, wa, ea)"
    by (cases "transcribe_with_progress env p w") auto
  with transcribe_with_progress_empty [OF assms(1)] have "tx = None"
    by (simp add: result_of_def)
  with t assms(2) show ?thesis
    by (auto simp: transcribe_multiple_videos_def result_of_def Let_def
        split: option.splits if_splits)
qed

text \<open>The entries of \<^verbatim>\<open>downloaded_videos\<close> carry the temp path of their video.\<close>

lemma download_all_paths:
  "download_all env files w = (rs, w1, evs) \<Longrightarrow> (f, Inr (Some p)) \<in> set rs \<Longrightarrow>
   p = temp_video_of (f_name f)"
proof (induction files arbitrary: w rs w1 evs)
  case Nil
  then show ?case by simp
next
  case (Cons x files)
  obtain r wa ea where d: "download_video env (f_id x) (f_name x) w = (r, wa, ea)"
    by (cases "download_video env (f_id x) (f_name x) w") auto
  obtain rs' wb eb where a: "download_all env files wa = (rs', wb, eb)"
    by (cases "download_all env files wa") auto
  from Cons.prems(1) d a have "rs = (x, r) # rs'" by simp
  with Cons.prems(2) consider "f = x \<and> r = Inr (Some p)" | "(f, Inr (Some p)) \<in> set rs'"
    by auto
  then show ?case
  proof cases
    case 1
    with d download_video_result_path [of env "f_id x" "f_name x" w p] show ?thesis
      by (simp add: result_of_def)
  next
    case 2
    from Cons.IH [OF a 2] show ?thesis .
  qed
qed

lemma verify_downloads_paths:
  "\<forall>(n, f, p)\<in>set dv. p = temp_video_of (f_name f) \<Longrightarrow>
   \<forall>f p. (f, Inr (Some p)) \<in> set rs \<longrightarrow> p = temp_video_of (f_name f) \<Longrightarrow>
   \<forall>(n, f, p)\<in>set (verify_downloads w rs dv). p = temp_video_of (f_name f)"
proof (induction rs arbitrary: dv)
  case Nil
  then show ?case by simp
next
  case (Cons x rs)
  obtain fl r where x: "x = (fl, r)" by (cases x) auto
  let ?dv = "case r of
          Inr (Some temp_path) \<Rightarrow>
            if path_exists w temp_path \<and> getsize w temp_path > 0
            then AList.update (f_name fl) (fl, temp_path) dv
            else dv
        | Inr None \<Rightarrow> dv
        | Inl e \<Rightarrow> dv"
  have i: "\<forall>(n, f, p)\<in>set ?dv. p = temp_video_of (f_name f)"
  proof (cases "\<exists>temp_path. r = Inr (Some temp_path) \<and> path_exists w temp_path \<and>
      getsize w temp_path > 0")
    case True
    then obtain temp_path where r: "r = Inr (Some temp_path)"
      and ok: "path_exists w temp_path \<and> getsize w temp_path > 0" by blast
    from r x Cons.prems(2) have "temp_path = temp_video_of (f_name fl)" by simp
    moreover from r ok have "?dv = AList.update (f_name fl) (fl, temp_path) dv" by simp
    ultimately show ?thesis
      using set_update_subset [of "f_name fl" "(fl, temp_path)" dv] Cons.prems(1) by auto
  next
    case False
    then have "?dv = dv" by (auto split: sum.splits option.splits)
    then show ?thesis using Cons.prems(1) by simp
  qed
  have "\<forall>f p. (f, Inr (Some p)) \<in> set rs \<longrightarrow> p = temp_video_of (f_name f)"
    using Cons.prems(2) by simp
  from Cons.IH [OF i this] x show ?case by simp
qed

text \<open>A persist loop writes and inserts for the entries that have a text in the mapping,
  and for no other.\<close>

lemma persist_all_names:
  "persist_all env subject tr dv w = (w2, evs) \<Longrightarrow>
   (\<forall>e\<in>set evs. \<exists>n f p t. (n, f, p) \<in> set dv \<and> map_of tr p = Some t \<and>
      (e = EvWrite (txt_name_of (f_name f)) t \<or> e = EvInsert subject (f_name f))) \<and>
   (\<forall>x\<in>set (store w2). x \<in> set (store w) \<or>
      (\<exists>n f p t. (n, f, p) \<in> set dv \<and> map_of tr p = Some t \<and> x = (subject, f_name f)))"
proof (induction dv arbitrary: w w2 evs)
  case Nil
  then show ?case by simp
next
  case (Cons entry dv)
  obtain video_name fl temp_path where entry: "entry = (video_name, fl, temp_path)"
    by (cases entry) auto
  show ?case
  proof (cases "map_of tr temp_path")
    case None
    with Cons.prems entry have "persist_all env subject tr dv w = (w2, evs)" by simp
    from Cons.IH [OF this] show ?thesis by (simp, blast)
  next
    case (Some t)
    obtain wa ea where p: "process_transcribed_video env subject fl temp_path t w = (wa, ea)"
      by (cases "process_transcribed_video env subject fl temp_path t w") auto
    obtain wb eb where a: "persist_all env subject tr dv wa = (wb, eb)"
      by (cases "persist_all env subject tr dv wa") auto
    from Cons.prems entry Some p a have eq: "w2 = wb" "evs = ea @ eb" by simp_all
    note ih = Cons.IH [OF a]
    have here: "(video_name, fl, temp_path) \<in> set (entry # dv) \<and> map_of tr temp_path = Some t"
      using entry Some by simp
    from process_transcribed_video_cases [OF p]
    have ea: "\<forall>e\<in>set ea. e = EvWrite (txt_name_of (f_name fl)) t \<or> e = EvInsert subject (f_name fl)"
      by auto
    have ev: "\<forall>e\<in>set evs. \<exists>n f p t. (n, f, p) \<in> set (entry # dv) \<and> map_of tr p = Some t \<and>
        (e = EvWrite (txt_name_of (f_name f)) t \<or> e = EvInsert subject (f_name f))"
    proof
      fix e
      assume "e \<in> set evs"
      with eq consider "e \<in> set ea" | "e \<in> set eb" by auto
      then show "\<exists>n f p t. (n, f, p) \<in> set (entry # dv) \<and> map_of tr p = Some t \<and>
          (e = EvWrite (txt_name_of (f_name f)) t \<or> e = EvInsert subject (f_name f))"
      proof cases
        case 1
        with ea here show ?thesis by blast
      next
        case 2
        with ih obtain n f p t' where "(n, f, p) \<in> set dv" "map_of tr p = Some t'"
          "e = EvWrite (txt_name_of (f_name f)) t' \<or> e = EvInsert subject (f_name f)"
          by blast
        then show ?thesis by (intro exI [of _ n] exI [of _ f] exI [of _ p] exI [of _ t']) simp
      qed
    qed
    have st: "\<forall>x\<in>set (store w2). x \<in> set (store w) \<or>
        (\<exists>n f p t. (n, f, p) \<in> set (entry # dv) \<and> map_of tr p = Some t \<and> x = (subject, f_name f))"
    proof
      fix x
      assume "x \<in> set (store w2)"
      with eq ih consider "x \<in> set (store wa)"
        | n f p t' where "(n, f, p) \<in> set dv" "map_of tr p = Some t'" "x = (subject, f_name f)"
        by blast
      then show "x \<in> set (store w) \<or>
          (\<exists>n f p t. (n, f, p) \<in> set (entry # dv) \<and> map_of tr p = Some t \<and> x = (subject, f_name f))"
      proof cases
        case 1
        with process_transcribed_video_store [OF p]
        have "x \<in> set (store w) \<or> x = (subject, f_name fl)" by auto
        with here show ?thesis by blast
      next
        case 2
        then show ?thesis
          by (intro disjI2 exI [of _ n] exI [of _ f] exI [of _ p] exI [of _ t']) simp
      qed
    qed
    from ev st show ?thesis by blast
  qed
qed

text \<open>A subject run writes an artifact and inserts a record only for a video whose temp
  file the transcriber turned into a text that is not empty.\<close>

lemma process_subject_persists_transcribed:
  assumes "process_subject env subject w = (out, w', evs)"
  shows "(\<forall>e\<in>set evs. phase_of e = Persisting \<longrightarrow>
        (\<exists>n t w''. result_of (transcribe_with_ffmpeg_preprocessing env (temp_video_of n) w'') =
            Some t \<and> t \<noteq> [] \<and>
          (e = EvWrite (txt_name_of n) t \<or> e = EvInsert subject n))) \<and>
     (\<forall>x\<in>set (store w'). x \<in> set (store w) \<or>
        (\<exists>n t w''. result_of (transcribe_with_ffmpeg_preprocessing env (temp_video_of n) w'') =
            Some t \<and> t \<noteq> [] \<and> x = (subject, n)))"
proof -
  obtain r where b: "process_subject_body env subject w = (r, w', evs)"
    using assms by (auto simp: process_subject_unfold split: prod.splits)
  from process_subject_body_cases [OF b]
  consider (early) "w' = w" "evs = []"
    | (late) pending rs w1 evs1 evs2 where "download_all env pending w = (rs, w1, evs1)"
        "after_download env subject (verify_downloads w1 rs []) w1 = (r, w', evs2)"
        "evs = evs1 @ evs2"
    by blast
  then show ?thesis
  proof cases
    case early
    then show ?thesis by simp
  next
    case late
    note d = late(1) and a = late(2) and evs = late(3)
    let ?dv = "verify_downloads w1 rs []"
    let ?paths = "map (\<lambda>(video_name, fl, temp_path). temp_path) ?dv"
    have s1: "store w1 = store w" using download_all_store [OF d] .
    have p1: "\<forall>e\<in>set evs1. phase_of e \<noteq> Persisting"
      using download_all_phase [OF d] by auto
    have paths: "\<forall>(n, f, p)\<in>set ?dv. p = temp_video_of (f_name f)"
      using verify_downloads_paths [of "[]" rs w1] download_all_paths [OF d] by simp
    from after_download_cases [OF a]
    consider (nodl) "w' = w1" "evs2 = []"
      | (failed) e' where "transcribe_multiple_videos env ?paths w1 = (Inl e', w', evs2)"
      | (none) wb ea eb where "transcribe_multiple_videos env ?paths w1 = (Inr [], wb, ea)"
          "cleanup ?dv wb = (w', eb)" "evs2 = ea @ eb"
      | (some) tr wb ea wc eb ec where
          "transcribe_multiple_videos env ?paths w1 = (Inr tr, wb, ea)"
          "persist_all env subject tr ?dv wb = (wc, eb)" "cleanup ?dv wc = (w', ec)"
          "evs2 = ea @ eb @ ec"
      by auto
    then show ?thesis
    proof cases
      case nodl
      with s1 p1 evs show ?thesis by auto
    next
      case failed
      from transcribe_multiple_videos_cases [OF failed] s1 p1 evs show ?thesis by auto
    next
      case none
      from transcribe_multiple_videos_cases [OF none(1)] cleanup_disk [OF none(2)] none(3)
        s1 p1 evs
      show ?thesis by auto
    next
      case some
      note t = transcribe_multiple_videos_cases [OF some(1)]
      note c = cleanup_disk [OF some(3)]
      note pn = persist_all_names [OF some(2)]
      have entry: "\<exists>w''. result_of (transcribe_with_ffmpeg_preprocessing env
            (temp_video_of (f_name f)) w'') = Some t \<and> t \<noteq> []"
        if "(n, f, p) \<in> set ?dv" "map_of tr p = Some t" for n f p t
      proof -
        from that(1) paths have "p = temp_video_of (f_name f)" by auto
        moreover from that(2) have "(p, t) \<in> set tr" by (rule map_of_SomeD)
        ultimately show ?thesis
          using transcribe_multiple_videos_entries [OF some(1)] by blast
      qed
      have ev: "\<forall>e\<in>set evs. phase_of e = Persisting \<longrightarrow>
          (\<exists>n t w''. result_of (transcribe_with_ffmpeg_preprocessing env (temp_video_of n) w'') =
              Some t \<and> t \<noteq> [] \<and>
            (e = EvWrite (txt_name_of n) t \<or> e = EvInsert subject n))"
      proof (intro ballI impI)
        fix e
        assume "e \<in> set evs" "phase_of e = Persisting"
        with evs some(4) p1 t c have "e \<in> set eb" by auto
        with pn obtain n f p t' where m: "(n, f, p) \<in> set ?dv" "map_of tr p = Some t'"
          and e: "e = EvWrite (txt_name_of (f_name f)) t' \<or> e = EvInsert subject (f_name f)"
          by blast
        from entry [OF m] e
        show "\<exists>n t w''. result_of (transcribe_with_ffmpeg_preprocessing env (temp_video_of n) w'') =
              Some t \<and> t \<noteq> [] \<and>
            (e = EvWrite (txt_name_of n) t \<or> e = EvInsert subject n)"
          by blast
      qed
      have st: "\<forall>x\<in>set (store w'). x \<in> set (store w) \<or>
          (\<exists>n t w''. result_of (transcribe_with_ffmpeg_preprocessing env (temp_video_of n) w'') =
              Some t \<and> t \<noteq> [] \<and> x = (subject, n))"
      proof
        fix x
        assume "x \<in> set (store w')"
        with c have "x \<in> set (store wc)" by simp
        with pn consider "x \<in> set (store wb)"
          | n f p t' where "(n, f, p) \<in> set ?dv" "map_of tr p = Some t'" "x = (subject, f_name f)"
          by blast
        then show "x \<in> set (store w) \<or>
          (\<exists>n t w''. result_of (transcribe_with_ffmpeg_preprocessing env (temp_video_of n) w'') =
              Some t \<and> t \<noteq> [] \<and> x = (subject, n))"
        proof cases
          case 1
          with t s1 show ?thesis by simp
        next
          case 2
          from entry [OF 2(1,2)] 2(3) show ?thesis by blast
        qed
      qed
      from ev st show ?thesis by blast
    qed
  qed
qed

text \<open>
  C10, as the specification states it.  The primary model finds no segment, so the transcriber
  returns the empty string, which is not \<^verbatim>\<open>None\<close>; the path is absent from the mapping
  of the pool, the run ends with no transcription, no artifact is written and the video
  is not marked.
\<close>

theorem empty_transcript_not_marked:
  "result_of (transcribe_with_ffmpeg_preprocessing env_no_speech ''temp_lec1.mp4'' w0) = Some [] \<and>
   result_of (transcribe_multiple_videos env_no_speech [''temp_lec1.mp4'']
     (world_of (download_video env_no_speech ''id1'' ''lec1.mp4'' w0))) = Inr [] \<and>
   result_of (process_subject env_no_speech ''math'' w0) = Done NoTranscriptions \<and>
   disk (world_of (process_subject env_no_speech ''math'' w0)) ''lec1.mp4_transcript.txt'' = None \<and>
   store (world_of (process_subject env_no_speech ''math'' w0)) = []"
  by code_simp

lemma empty_transcript_texts:
  "(result_of (transcribe_with_ffmpeg_preprocessing env video_path w) = Some [] \<longrightarrow>
      result_of (transcribe_with_progress env video_path w) = None) \<and>
   (\<forall>r p t. result_of (transcribe_multiple_videos env video_paths w) = Inr r \<and> (p, t) \<in> set r \<longrightarrow>
      t \<noteq> []) \<and>
   (\<forall>a t. EvWrite a t \<in> set (events_of (process_subject env subject w)) \<longrightarrow> t \<noteq> []) \<and>
   (\<forall>s n. EvInsert s n \<in> set (events_of (process_subject env subject w)) \<longrightarrow>
      (\<exists>t. t \<noteq> [] \<and> EvWrite (txt_name_of n) t \<in> set (events_of (process_subject env subject w))))"
proof (intro conjI allI impI)
  assume "result_of (transcribe_with_ffmpeg_preprocessing env video_path w) = Some []"
  then show "result_of (transcribe_with_progress env video_path w) = None"
    by (auto simp: transcribe_with_progress_def result_of_def split: prod.splits option.splits)
next
  fix r p t
  assume h: "result_of (transcribe_multiple_videos env video_paths w) = Inr r \<and> (p, t) \<in> set r"
  obtain res w1 evs where t: "transcribe_multiple_videos env video_paths w = (res, w1, evs)"
    by (cases "transcribe_multiple_videos env video_paths w") auto
  from transcribe_multiple_videos_cases [OF t] h t show "t \<noteq> []"
    by (auto simp: result_of_def)
next
  fix a t
  assume h: "EvWrite a t \<in> set (events_of (process_subject env subject w))"
  obtain out w' evs where p: "process_subject env subject w = (out, w', evs)"
    by (cases "process_subject env subject w") auto
  with h have "EvWrite a t \<in> set evs" by (simp add: events_of_def)
  from process_subject_persist_events [OF p this]
  obtain tr dv w1 w2 evs2 paths wa ea where
    t: "transcribe_multiple_videos env paths wa = (Inr tr, w1, ea)"
    and ps: "persist_all env subject tr dv w1 = (w2, evs2)" and e: "EvWrite a t \<in> set evs2"
    by auto
  from persist_all_events [OF ps] e obtain q where "(q, t) \<in> set tr" by blast
  with transcribe_multiple_videos_cases [OF t] show "t \<noteq> []" by blast
next
  fix s n
  assume h: "EvInsert s n \<in> set (events_of (process_subject env subject w))"
  obtain out w' evs where p: "process_subject env subject w = (out, w', evs)"
    by (cases "process_subject env subject w") auto
  with h have "EvInsert s n \<in> set evs" by (simp add: events_of_def)
  from process_subject_persist_events [OF p this]
  obtain tr dv w1 w2 evs2 paths wa ea where
    t: "transcribe_multiple_videos env paths wa = (Inr tr, w1, ea)"
    and ps: "persist_all env subject tr dv w1 = (w2, evs2)" and e: "EvInsert s n \<in> set evs2"
    and sub: "set evs2 \<subseteq> set evs"
    by auto
  from persist_all_events [OF ps] e obtain q t where
    q: "(q, t) \<in> set tr" and wr: "EvWrite (txt_name_of n) t \<in> set evs2" by blast
  from q transcribe_multiple_videos_cases [OF t] have "t \<noteq> []" by blast
  with wr sub p
  show "\<exists>t. t \<noteq> [] \<and> EvWrite (txt_name_of n) t \<in> set (events_of (process_subject env subject w))"
    by (auto simp: events_of_def)
qed

text \<open>A path whose transcription is empty is absent from the mapping, and its video is
  neither written nor inserted.\<close>

lemma txt_name_of_inject:
  "txt_name_of n = txt_name_of m \<longleftrightarrow> n = m"
  by (simp add: txt_name_of_def)

lemma empty_transcript_absent:
  "(\<forall>r. result_of (transcribe_with_ffmpeg_preprocessing env video_path w) = Some [] \<and>
      result_of (transcribe_multiple_videos env [video_path] w) = Inr r \<longrightarrow> r = []) \<and>
   (\<forall>r p t. result_of (transcribe_multiple_videos env video_paths w) = Inr r \<and> (p, t) \<in> set r \<longrightarrow>
      p \<in> set video_paths \<and>
      (\<exists>w'. result_of (transcribe_with_ffmpeg_preprocessing env p w') = Some t)) \<and>
   (\<forall>r p. (\<forall>w' t. result_of (transcribe_with_ffmpeg_preprocessing env p w') = Some t \<longrightarrow> t = []) \<and>
      result_of (transcribe_multiple_videos env video_paths w) = Inr r \<longrightarrow>
      p \<notin> fst ` set r) \<and>
   (\<forall>n. (\<forall>w' t. result_of (transcribe_with_ffmpeg_preprocessing env (temp_video_of n) w') = Some t \<longrightarrow>
            t = []) \<longrightarrow>
      EvInsert subject n \<notin> set (events_of (process_subject env subject w)) \<and>
      (\<forall>t. EvWrite (txt_name_of n) t \<notin> set (events_of (process_subject env subject w))) \<and>
      ((subject, n) \<in> set (store (world_of (process_subject env subject w))) \<longrightarrow>
         (subject, n) \<in> set (store w)))"
proof (intro conjI allI impI)
  fix r
  assume "result_of (transcribe_with_ffmpeg_preprocessing env video_path w) = Some [] \<and>
      result_of (transcribe_multiple_videos env [video_path] w) = Inr r"
  then show "r = []"
    using transcribe_multiple_videos_single_empty by blast
next
  fix r p t
  assume h: "result_of (transcribe_multiple_videos env video_paths w) = Inr r \<and> (p, t) \<in> set r"
  obtain w1 evs where "transcribe_multiple_videos env video_paths w = (Inr r, w1, evs)"
    using h by (cases "transcribe_multiple_videos env video_paths w") (auto simp: result_of_def)
  from transcribe_multiple_videos_entries [OF this, of p t] h
  show "p \<in> set video_paths"
    and "\<exists>w'. result_of (transcribe_with_ffmpeg_preprocessing env p w') = Some t"
    by blast+
next
  fix r p
  assume h: "(\<forall>w' t. result_of (transcribe_with_ffmpeg_preprocessing env p w') = Some t \<longrightarrow> t = []) \<and>
      result_of (transcribe_multiple_videos env video_paths w) = Inr r"
  obtain w1 evs where t: "transcribe_multiple_videos env video_paths w = (Inr r, w1, evs)"
    using h by (cases "transcribe_multiple_videos env video_paths w") (auto simp: result_of_def)
  show "p \<notin> fst ` set r"
  proof
    assume "p \<in> fst ` set r"
    then obtain t' where "(p, t') \<in> set r" by force
    from transcribe_multiple_videos_entries [OF t this] h show False by blast
  qed
next
  fix n
  assume h: "\<forall>w' t. result_of (transcribe_with_ffmpeg_preprocessing env (temp_video_of n) w') = Some t \<longrightarrow>
      t = []"
  obtain out w' evs where p: "process_subject env subject w = (out, w', evs)"
    by (cases "process_subject env subject w") auto
  note ps = process_subject_persists_transcribed [OF p]
  have none: "\<not> (\<exists>t w''. result_of (transcribe_with_ffmpeg_preprocessing env (temp_video_of n) w'') =
      Some t \<and> t \<noteq> [])"
    using h by blast
  show "EvInsert subject n \<notin> set (events_of (process_subject env subject w))"
  proof
    assume "EvInsert subject n \<in> set (events_of (process_subject env subject w))"
    with p have "EvInsert subject n \<in> set evs" by (simp add: events_of_def)
    moreover have "phase_of (EvInsert subject n) = Persisting" by simp
    ultimately obtain m t w'' where
      "result_of (transcribe_with_ffmpeg_preprocessing env (temp_video_of m) w'') = Some t \<and> t \<noteq> []"
      "EvInsert subject n = EvWrite (txt_name_of m) t \<or> EvInsert subject n = EvInsert subject m"
      using ps by blast
    with none show False by auto
  qed
  show "EvWrite (txt_name_of n) t \<notin> set (events_of (process_subject env subject w))" for t
  proof
    assume "EvWrite (txt_name_of n) t \<in> set (events_of (process_subject env subject w))"
    with p have "EvWrite (txt_name_of n) t \<in> set evs" by (simp add: events_of_def)
    moreover have "phase_of (EvWrite (txt_name_of n) t) = Persisting" by simp
    ultimately obtain m t' w'' where
      "result_of (transcribe_with_ffmpeg_preprocessing env (temp_video_of m) w'') = Some t' \<and> t' \<noteq> []"
      "EvWrite (txt_name_of n) t = EvWrite (txt_name_of m) t' \<or>
       EvWrite (txt_name_of n) t = EvInsert subject m"
      using ps by blast
    with none show False by (auto simp: txt_name_of_inject)
  qed
  assume "(subject, n) \<in> set (store (world_of (process_subject env subject w)))"
  with p have "(subject, n) \<in> set (store w')" by (simp add: world_of_def)
  with ps none show "(subject, n) \<in> set (store w)" by blast
qed

lemma no_speech_primary: "primary env_no_speech a = Inr []"
  by (simp add: env_no_speech_def)

lemma transcribe_result_cases:
  "result_of (transcribe_with_ffmpeg_preprocessing env p w) = Some t \<Longrightarrow>
   (\<exists>segments. primary env (audio_path_of p) = Inr segments \<and> t = format_segments newline segments) \<or>
   (\<exists>e segments. primary env (audio_path_of p) = Inl e \<and> shape_error e \<and>
      fallback env (audio_path_of p) = Inr segments \<and>
      t = format_segments (newline @ newline) segments)"
  by (auto simp: transcribe_with_ffmpeg_preprocessing_def result_of_def Let_def
      split: option.splits sum.splits if_splits)

text \<open>
  C10, amended.  An empty transcription is treated like \<^verbatim>\<open>None\<close>.  First part: the
  worker turns it into \<^verbatim>\<open>None\<close>, the mapping returned by the pool holds texts that are
  not empty only, and every artifact written and every record inserted by a subject run
  goes with a text that is not empty.  Second part: a path whose transcription is the
  empty string is absent from the mapping; every entry of the mapping is a text that the
  transcriber returned for that path; and a video whose transcription is empty is not
  written, not inserted, and not in the store after the run unless it was before.
\<close>

theorem empty_transcript_is_failure:
  "((result_of (transcribe_with_ffmpeg_preprocessing env video_path w) = Some [] \<longrightarrow>
      result_of (transcribe_with_progress env video_path w) = None) \<and>
   (\<forall>r p t. result_of (transcribe_multiple_videos env video_paths w) = Inr r \<and> (p, t) \<in> set r \<longrightarrow>
      t \<noteq> []) \<and>
   (\<forall>a t. EvWrite a t \<in> set (events_of (process_subject env subject w)) \<longrightarrow> t \<noteq> []) \<and>
   (\<forall>s n. EvInsert s n \<in> set (events_of (process_subject env subject w)) \<longrightarrow>
      (\<exists>t. t \<noteq> [] \<and> EvWrite (txt_name_of n) t \<in> set (events_of (process_subject env subject w))))) \<and>
   ((\<forall>r. result_of (transcribe_with_ffmpeg_preprocessing env video_path w) = Some [] \<and>
      result_of (transcribe_multiple_videos env [video_path] w) = Inr r \<longrightarrow> r = []) \<and>
   (\<forall>r p t. result_of (transcribe_multiple_videos env video_paths w) = Inr r \<and> (p, t) \<in> set r \<longrightarrow>
      p \<in> set video_paths \<and>
      (\<exists>w'. result_of (transcribe_with_ffmpeg_preprocessing env p w') = Some t)) \<and>
   (\<forall>r p. (\<forall>w' t. result_of (transcribe_with_ffmpeg_preprocessing env p w') = Some t \<longrightarrow> t = []) \<and>
      result_of (transcribe_multiple_videos env video_paths w) = Inr r \<longrightarrow>
      p \<notin> fst ` set r) \<and>
   (\<forall>n. (\<forall>w' t. result_of (transcribe_with_ffmpeg_preprocessing env (temp_video_of n) w') = Some t \<longrightarrow>
            t = []) \<longrightarrow>
      EvInsert subject n \<notin> set (events_of (process_subject env subject w)) \<and>
      (\<forall>t. EvWrite (txt_name_of n) t \<notin> set (events_of (process_subject env subject w))) \<and>
      ((subject, n) \<in> set (store (world_of (process_subject env subject w))) \<longrightarrow>
         (subject, n) \<in> set (store w))))"
  by (rule conjI [OF empty_transcript_texts empty_transcript_absent])

theorem empty_transcript_is_failure_witness:
  "result_of (transcribe_with_ffmpeg_preprocessing env_no_speech ''temp_lec1.mp4'' w_downloaded) =
     Some [] \<and>
   result_of (transcribe_with_progress env_no_speech ''temp_lec1.mp4'' w_downloaded) = None \<and>
   result_of (transcribe_multiple_videos env0 [''temp_lec1.mp4''] w_downloaded) =
     Inr [(''temp_lec1.mp4'', ''hello'' @ [CHR 0x0A] @ ''world'' @ [CHR 0x0A])] \<and>
   ''hello'' @ [CHR 0x0A] @ ''world'' @ [CHR 0x0A] \<noteq> [] \<and>
   EvInsert ''math'' ''lec1.mp4'' \<in> set (events_of (process_subject env0 ''math'' w0)) \<and>
   (\<exists>t. t \<noteq> [] \<and>
      EvWrite (txt_name_of ''lec1.mp4'') t \<in> set (events_of (process_subject env0 ''math'' w0))) \<and>
   result_of (transcribe_multiple_videos env_no_speech [''temp_lec1.mp4''] w_downloaded) = Inr [] \<and>
   EvInsert ''math'' ''lec1.mp4''
     \<notin> set (events_of (process_subject env_no_speech ''math'' w0)) \<and>
   EvWrite (txt_name_of ''lec1.mp4'') ''TEXT''
     \<notin> set (events_of (process_subject env_no_speech ''math'' w0)) \<and>
   (''math'', ''lec1.mp4'') \<notin> set (store (world_of (process_subject env_no_speech ''math'' w0)))"
proof -
  have a: "result_of (transcribe_with_ffmpeg_preprocessing env_no_speech ''temp_lec1.mp4''
      w_downloaded) = Some []"
    by code_simp
  have b: "result_of (transcribe_multiple_videos env0 [''temp_lec1.mp4''] w_downloaded) =
     Inr [(''temp_lec1.mp4'', ''hello'' @ [CHR 0x0A] @ ''world'' @ [CHR 0x0A])]"
    by code_simp
  have c: "EvInsert ''math'' ''lec1.mp4'' \<in> set (events_of (process_subject env0 ''math'' w0))"
    by code_simp
  have hyp: "result_of (transcribe_with_ffmpeg_preprocessing env_no_speech
      (temp_video_of ''lec1.mp4'') w') = Some t \<Longrightarrow> t = []" for w' t
    using transcribe_result_cases [of env_no_speech "temp_video_of ''lec1.mp4''" w' t]
    by (auto simp: no_speech_primary)
  have unmarked: "(''math'', ''lec1.mp4'') \<notin> set (store w0)"
    by (simp add: w0_def)
  note t1 = empty_transcript_is_failure [of env_no_speech "''temp_lec1.mp4''" w_downloaded
      "[''temp_lec1.mp4'']" "''math''"]
  note t2 = empty_transcript_is_failure [of env0 "''temp_lec1.mp4''" w0 "[''temp_lec1.mp4'']"
      "''math''"]
  note t3 = empty_transcript_is_failure [of env_no_speech "''temp_lec1.mp4''" w0
      "[''temp_lec1.mp4'']" "''math''"]
  note worker = t1 [THEN conjunct1, THEN conjunct1]
  note inserted = t2 [THEN conjunct1, THEN conjunct2, THEN conjunct2, THEN conjunct2]
  note single = t1 [THEN conjunct2, THEN conjunct1]
  have hyp_all: "\<forall>w' t. result_of (transcribe_with_ffmpeg_preprocessing env_no_speech
      (temp_video_of ''lec1.mp4'') w') = Some t \<longrightarrow> t = []"
    using hyp by blast
  note video = t3 [THEN conjunct2, THEN conjunct2, THEN conjunct2, THEN conjunct2,
      THEN spec, THEN mp, OF hyp_all]
  have a': "result_of (transcribe_with_progress env_no_speech ''temp_lec1.mp4'' w_downloaded) = None"
    using worker a by blast
  have b': "''hello'' @ [CHR 0x0A] @ ''world'' @ [CHR 0x0A] \<noteq> []"
    by simp
  have c': "\<exists>t. t \<noteq> [] \<and>
      EvWrite (txt_name_of ''lec1.mp4'') t \<in> set (events_of (process_subject env0 ''math'' w0))"
    using inserted c by blast
  obtain r where r: "result_of (transcribe_multiple_videos env_no_speech [''temp_lec1.mp4'']
      w_downloaded) = Inr r"
    by (cases "result_of (transcribe_multiple_videos env_no_speech [''temp_lec1.mp4'']
      w_downloaded)") (simp_all add: transcribe_multiple_videos_def result_of_def
        env_no_speech_def env0_def split: prod.splits)
  with single a have "r = []" by blast
  with r have m0: "result_of (transcribe_multiple_videos env_no_speech [''temp_lec1.mp4'']
      w_downloaded) = Inr []"
    by simp
  have ni: "EvInsert ''math'' ''lec1.mp4''
      \<notin> set (events_of (process_subject env_no_speech ''math'' w0))"
    using video by blast
  have nw: "EvWrite (txt_name_of ''lec1.mp4'') ''TEXT''
      \<notin> set (events_of (process_subject env_no_speech ''math'' w0))"
    using video by blast
  have ns: "(''math'', ''lec1.mp4'')
      \<notin> set (store (world_of (process_subject env_no_speech ''math'' w0)))"
    using video unmarked by blast
  from a a' b b' c c' m0 ni nw ns show ?thesis by blast
qed

end
